theory Spec2Isabelle
  imports Complex_Main
begin

section \<open>Data model (prisma/migrations/20251004222708_dbevntmngmnt/migration.sql)\<close>

text \<open>
  Monetary amounts and point amounts are the source's \<open>number\<close> values (DOUBLE PRECISION
  columns); they are modelled as exact rationals. The two agree wherever the double
  arithmetic of the source is exact, in particular on the whole numbers up to \<open>2 ^ 53\<close>
  (\<open>wholeAmount\<close> below); on fractional amounts a sum or a difference of doubles is
  rounded, and a comparison at the threshold can come out differently. Ticket counts
  (INTEGER columns) are integers. Row identifiers (TEXT primary keys) are strings and
  timestamps are milliseconds since the epoch. The text of a voucher or coupon code is the
  list of its UTF-16 code units (numbers from 0 to 65535), as JavaScript strings have
  them. Columns that the booking
  engine never reads (titles, names, \<open>createdAt\<close>/\<open>updatedAt\<close> stamps other than the
  point lots' \<open>createdAt\<close>, invoice numbers) are left out.
\<close>

type_synonym ident = string
type_synonym date = int
type_synonym codeUnits = "int list"

definition wholeAmount :: "rat \<Rightarrow> bool" where
  "wholeAmount x = (x = of_int \<lfloor>x\<rfloor> \<and> \<bar>x\<bar> \<le> 2 ^ 53)"

datatype DiscountType = PERCENTAGE | FIXED

datatype TransactionStatus =
  WAITING_FOR_PAYMENT | WAITING_FOR_CONFIRMATION | DONE | REJECTED | EXPIRED | CANCELED

record Event =
  e_id :: ident
  e_organizerId :: ident
  e_startDate :: date
  e_availableSeats :: int
  e_bookedSeats :: int
  e_isPublished :: bool

record EventTicketType =
  tt_id :: ident
  tt_eventId :: ident
  tt_price :: rat
  tt_quantity :: int
  tt_soldQuantity :: int

record EventVoucher =
  v_id :: ident
  v_eventId :: ident
  v_code :: codeUnits
  v_discountType :: DiscountType
  v_discountValue :: rat
  v_maxUsage :: int
  v_usedCount :: int
  v_minPurchaseAmount :: rat
  v_startDate :: date
  v_endDate :: date

record CouponTemplate =
  ct_id :: ident
  ct_discountType :: DiscountType
  ct_discountValue :: rat
  ct_minPurchaseAmount :: rat
  ct_maxDiscountAmount :: "rat option"

record UserCoupon =
  c_id :: ident
  c_userId :: ident
  c_couponTemplateId :: ident
  c_code :: codeUnits
  c_isUsed :: bool
  c_expiryDate :: date

record UserPoint =
  p_id :: ident
  p_userId :: ident
  p_amount :: rat
  p_sourceType :: string
  p_expiryDate :: date
  p_isExpired :: bool
  p_createdAt :: date

record TransactionItem =
  i_ticketTypeId :: ident
  i_quantity :: int
  i_pricePerTicket :: rat
  i_subtotal :: rat

record Transaction =
  t_id :: ident
  t_userId :: ident
  t_eventId :: ident
  t_status :: TransactionStatus
  t_totalAmount :: rat
  t_pointsUsed :: rat
  t_voucherId :: "ident option"
  t_voucherDiscount :: rat
  t_couponId :: "ident option"
  t_couponDiscount :: rat
  t_finalAmount :: rat
  t_expiryTime :: date
  t_items :: "TransactionItem list"

record EventAttendee =
  a_eventId :: ident
  a_userId :: ident
  a_transactionId :: ident
  a_ticketCount :: int
  a_totalPaid :: rat

record TransactionPayment =
  pay_transactionId :: ident
  pay_paymentProofUrl :: string

text \<open>The database: one list of rows per Prisma model, named as the client names them.\<close>

record db =
  event :: "Event list"
  eventTicketType :: "EventTicketType list"
  eventVoucher :: "EventVoucher list"
  couponTemplate :: "CouponTemplate list"
  userCoupon :: "UserCoupon list"
  userPoint :: "UserPoint list"
  transaction :: "Transaction list"
  eventAttendee :: "EventAttendee list"
  transactionPayment :: "TransactionPayment list"

text \<open>The request body of \<open>createTransaction\<close> (src/types/index.ts).\<close>

record TicketLine =
  ticketTypeId :: ident
  quantity :: int

record TransactionCreateRequest =
  eventId :: ident
  ticketTypes :: "TicketLine list"
  pointsUsed :: "rat option"
  voucherCode :: "codeUnits option"
  couponCode :: "codeUnits option"

text \<open>
  What an operation takes from its surroundings: the clock reading (one reading stands
  for all the \<open>new Date()\<close> of a call), the identifier the database generates for the
  row the operation creates, and the calendar functions \<open>addMonths\<close> and \<open>addHours\<close> of
  the helpers (src/utils/helpers.ts). They call \<open>setMonth\<close> and \<open>setHours\<close>, which work on
  the local wall-clock time of the server, so their results depend on the JavaScript
  calendar and on the time zone with its daylight-saving changes.
\<close>

record env =
  now :: date
  uuid :: ident
  addMonths :: "date \<Rightarrow> int \<Rightarrow> date"
  addHours :: "date \<Rightarrow> int \<Rightarrow> date"

datatype error =
    INVALID_INPUT
  | EVENT_NOT_AVAILABLE
  | TICKET_TYPES_NOT_FOUND
  | INVALID_QUANTITY
  | INSUFFICIENT_TICKETS
  | INSUFFICIENT_SEATS
  | POINTS_ERROR
  | VOUCHER_ERROR
  | COUPON_MINIMUM_NOT_MET
  | TICKET_QUANTITY_EXCEEDED
  | TRANSACTION_NOT_FOUND
  | TRANSACTION_EXPIRED
  | UPLOAD_FAILED
  | TYPE_ERROR
  | P2002
  | P2025

text \<open>
  \<open>P2002\<close> and \<open>P2025\<close> are the Prisma client's errors for a unique-constraint violation
  and for an \<open>update\<close> whose row does not exist; \<open>TICKET_QUANTITY_EXCEEDED\<close> is the plain
  \<open>Error\<close> of step 9; \<open>TYPE_ERROR\<close> is JavaScript's error on reading a property of
  \<open>undefined\<close>.
\<close>

section \<open>Helpers (src/utils/helpers.ts)\<close>

text \<open>
  \<open>maxDiscount?: number\<close> is an optional argument. The source tests it by truthiness
  (\<open>maxDiscount && discount > maxDiscount\<close>), so an absent cap and a cap of 0 both
  leave the percentage discount unclamped.
\<close>

definition calculateDiscount :: "rat \<Rightarrow> DiscountType \<Rightarrow> rat \<Rightarrow> rat option \<Rightarrow> rat" where
  "calculateDiscount amount discountType discountValue maxDiscount =
     (let discount =
        (if discountType = PERCENTAGE then
           (let d = (amount * discountValue) / 100 in
            (case maxDiscount of
               None \<Rightarrow> d
             | Some m \<Rightarrow> if m \<noteq> 0 \<and> d > m then m else d))
         else discountValue)
      in min discount amount)"

text \<open>
  \<open>String.prototype.trim\<close> removes the leading and trailing code units that ECMAScript
  counts as white space or as line terminators: U+0009 to U+000D, the space U+0020, the
  no-break space U+00A0, U+1680, U+2000 to U+200A, U+2028, U+2029, U+202F, U+205F, U+3000
  and the byte order mark U+FEFF.
\<close>

definition isWhiteSpace :: "int \<Rightarrow> bool" where
  "isWhiteSpace c = ((0x0009 \<le> c \<and> c \<le> 0x000D) \<or> c = 0x0020 \<or> c = 0x00A0 \<or> c = 0x1680
                     \<or> (0x2000 \<le> c \<and> c \<le> 0x200A) \<or> c = 0x2028 \<or> c = 0x2029
                     \<or> c = 0x202F \<or> c = 0x205F \<or> c = 0x3000 \<or> c = 0xFEFF)"

definition trim :: "codeUnits \<Rightarrow> codeUnits" where
  "trim s = rev (dropWhile isWhiteSpace (rev (dropWhile isWhiteSpace s)))"

section \<open>The Prisma client\<close>

text \<open>
  A table is the list of its rows. \<open>findFirst\<close> and \<open>findUnique\<close> are \<^const>\<open>find\<close> on
  the table. \<open>update\<close> addresses a row by a unique key, changes it and returns the
  changed row; it throws \<open>P2025\<close> when no row has the key.
\<close>

definition update :: "('a \<Rightarrow> bool) \<Rightarrow> ('a \<Rightarrow> 'a) \<Rightarrow> 'a list \<Rightarrow> error + ('a \<times> 'a list)" where
  "update key f rows =
     (case find key rows of
        None \<Rightarrow> Inl P2025
      | Some r \<Rightarrow> Inr (f r, map (\<lambda>x. if key x then f x else x) rows))"

text \<open>Sequencing of steps that may throw.\<close>

definition andThen :: "error + 'a \<Rightarrow> ('a \<Rightarrow> error + 'b) \<Rightarrow> error + 'b" where
  "andThen m f = (case m of Inl e \<Rightarrow> Inl e | Inr x \<Rightarrow> f x)"

text \<open>
  \<open>prisma.$transaction(async (tx) => ...)\<close>: the callback runs on the database; when it
  throws, every write it made is rolled back and the error is passed on.
\<close>

definition prisma_transaction ::
  "(db \<Rightarrow> error + ('a \<times> db)) \<Rightarrow> db \<Rightarrow> (error + 'a) \<times> db" where
  "prisma_transaction body s =
     (case body s of
        Inl e \<Rightarrow> (Inl e, s)
      | Inr (r, s') \<Rightarrow> (Inr r, s'))"

section \<open>TransactionService (src/services/voucherService.ts, from line 233)\<close>

subsection \<open>createTransaction\<close>

record TicketUpdate =
  u_id :: ident
  u_quantity :: int
  u_currentSold :: int
  u_maxQuantity :: int
  u_price :: rat

text \<open>
  Step 1: the published event that has not started yet, with those of its ticket types
  whose id the request names.
\<close>

definition findBookableEvent ::
  "env \<Rightarrow> db \<Rightarrow> TransactionCreateRequest \<Rightarrow> (Event \<times> EventTicketType list) option" where
  "findBookableEvent env s req =
     (case find (\<lambda>e. e_id e = eventId req \<and> e_isPublished e \<and> e_startDate e > now env) (event s) of
        None \<Rightarrow> None
      | Some ev \<Rightarrow>
          Some (ev, filter (\<lambda>t. tt_eventId t = e_id ev
                                \<and> tt_id t \<in> set (map ticketTypeId (ticketTypes req)))
                           (eventTicketType s)))"

definition missingTicketTypes :: "EventTicketType list \<Rightarrow> TicketLine list \<Rightarrow> ident list" where
  "missingTicketTypes ets lines =
     filter (\<lambda>i. i \<notin> set (map tt_id ets)) (map ticketTypeId lines)"

text \<open>Step 2: the loop over the requested lines, with its two accumulators.\<close>

fun validateTickets ::
  "EventTicketType list \<Rightarrow> TicketLine list \<Rightarrow> rat \<Rightarrow> TicketUpdate list
     \<Rightarrow> error + (rat \<times> TicketUpdate list)" where
  "validateTickets ets [] totalAmount ticketUpdates = Inr (totalAmount, ticketUpdates)"
| "validateTickets ets (item # items) totalAmount ticketUpdates =
     (case find (\<lambda>t. tt_id t = ticketTypeId item) ets of
        None \<Rightarrow> validateTickets ets items totalAmount ticketUpdates
      | Some ticketType \<Rightarrow>
          if quantity item \<le> 0 then Inl INVALID_QUANTITY
          else if quantity item > tt_quantity ticketType - tt_soldQuantity ticketType
          then Inl INSUFFICIENT_TICKETS
          else validateTickets ets items
                 (totalAmount + of_int (quantity item) * tt_price ticketType)
                 (ticketUpdates @
                    [\<lparr>u_id = tt_id ticketType, u_quantity = quantity item,
                      u_currentSold = tt_soldQuantity ticketType,
                      u_maxQuantity = tt_quantity ticketType,
                      u_price = tt_price ticketType\<rparr>]))"

definition totalTicketsRequested :: "TicketLine list \<Rightarrow> int" where
  "totalTicketsRequested lines = foldl (\<lambda>sum item. sum + quantity item) 0 lines"

text \<open>
  Step 4: the points the buyer may spend now, the database's \<open>SUM\<close> of the amounts of the
  lots that are not flagged expired and expire now or later. The database adds doubles;
  the sum is the exact one when the amounts are whole numbers and their partial sums stay
  within \<open>2 ^ 53\<close>.
\<close>

definition availablePoints :: "env \<Rightarrow> db \<Rightarrow> ident \<Rightarrow> rat" where
  "availablePoints env s userId =
     sum_list (map p_amount
       (filter (\<lambda>p. p_userId p = userId \<and> \<not> p_isExpired p \<and> p_expiryDate p \<ge> now env)
               (userPoint s)))"

definition validatePoints :: "env \<Rightarrow> db \<Rightarrow> ident \<Rightarrow> rat \<Rightarrow> rat \<Rightarrow> error + rat" where
  "validatePoints env s userId points totalAmount =
     (if points > 0 then
        (if points > totalAmount then Inl POINTS_ERROR
         else if points > availablePoints env s userId then Inl POINTS_ERROR
         else Inr points)
      else Inr 0)"

text \<open>Step 5: the voucher, looked up by trimmed code, event and validity window.\<close>

definition findVoucher :: "env \<Rightarrow> db \<Rightarrow> ident \<Rightarrow> codeUnits \<Rightarrow> EventVoucher option" where
  "findVoucher env s eid code =
     find (\<lambda>v. v_code v = code \<and> v_eventId v = eid
                \<and> v_startDate v \<le> now env \<and> v_endDate v \<ge> now env)
          (eventVoucher s)"

definition validateVoucher ::
  "env \<Rightarrow> db \<Rightarrow> ident \<Rightarrow> codeUnits option \<Rightarrow> rat \<Rightarrow> error + (rat \<times> EventVoucher option)" where
  "validateVoucher env s eid code totalAmount =
     (case code of
        None \<Rightarrow> Inr (0, None)
      | Some c \<Rightarrow>
          if c \<noteq> [] \<and> trim c \<noteq> [] then
            (case findVoucher env s eid (trim c) of
               None \<Rightarrow> Inr (0, None)
             | Some voucher \<Rightarrow>
                 if v_usedCount voucher \<ge> v_maxUsage voucher then Inl VOUCHER_ERROR
                 else if totalAmount < v_minPurchaseAmount voucher then Inl VOUCHER_ERROR
                 else Inr (calculateDiscount totalAmount (v_discountType voucher)
                             (v_discountValue voucher) None,
                           Some voucher))
          else Inr (0, None))"

text \<open>
  Step 6: the buyer's unused, unexpired coupon with that code, joined with its template
  (\<open>include: { couponTemplate: true }\<close>; the foreign key makes the template exist).
\<close>

definition findCoupon :: "env \<Rightarrow> db \<Rightarrow> ident \<Rightarrow> codeUnits \<Rightarrow> UserCoupon option" where
  "findCoupon env s userId code =
     find (\<lambda>c. c_code c = code \<and> c_userId c = userId \<and> \<not> c_isUsed c
                \<and> c_expiryDate c \<ge> now env)
          (userCoupon s)"

definition validateCoupon ::
  "env \<Rightarrow> db \<Rightarrow> ident \<Rightarrow> codeUnits option \<Rightarrow> rat \<Rightarrow> error + (rat \<times> UserCoupon option)" where
  "validateCoupon env s userId code totalAmount =
     (case code of
        None \<Rightarrow> Inr (0, None)
      | Some c \<Rightarrow>
          if c \<noteq> [] \<and> trim c \<noteq> [] then
            (case findCoupon env s userId (trim c) of
               None \<Rightarrow> Inr (0, None)
             | Some coupon \<Rightarrow>
                 (case find (\<lambda>t. ct_id t = c_couponTemplateId coupon) (couponTemplate s) of
                    None \<Rightarrow> Inl TYPE_ERROR
                  | Some template \<Rightarrow>
                      if totalAmount < ct_minPurchaseAmount template
                      then Inl COUPON_MINIMUM_NOT_MET
                      else Inr (calculateDiscount totalAmount (ct_discountType template)
                                  (ct_discountValue template) (ct_maxDiscountAmount template),
                                Some coupon)))
          else Inr (0, None))"

text \<open>Step 8: the line items, priced from the ticket types read in step 1.\<close>

fun createItems :: "EventTicketType list \<Rightarrow> TicketLine list \<Rightarrow> error + TransactionItem list" where
  "createItems ets [] = Inr []"
| "createItems ets (item # items) =
     (case find (\<lambda>t. tt_id t = ticketTypeId item) ets of
        None \<Rightarrow> Inl TYPE_ERROR
      | Some ticketType \<Rightarrow>
          andThen (createItems ets items) (\<lambda>rest.
            Inr (\<lparr>i_ticketTypeId = ticketTypeId item, i_quantity = quantity item,
                  i_pricePerTicket = tt_price ticketType,
                  i_subtotal = of_int (quantity item) * tt_price ticketType\<rparr> # rest)))"

definition createTransactionRow :: "Transaction \<Rightarrow> db \<Rightarrow> error + db" where
  "createTransactionRow row s =
     (case find (\<lambda>t. t_id t = t_id row) (transaction s) of
        Some _ \<Rightarrow> Inl P2002
      | None \<Rightarrow> Inr (s\<lparr>transaction := transaction s @ [row]\<rparr>))"

text \<open>Step 9: every increment is followed by the check of the row just written.\<close>

fun updateTicketCounts ::
  "EventTicketType list \<Rightarrow> TicketUpdate list \<Rightarrow> error + EventTicketType list" where
  "updateTicketCounts tts [] = Inr tts"
| "updateTicketCounts tts (upd # upds) =
     (case update (\<lambda>t. tt_id t = u_id upd)
                  (\<lambda>t. t\<lparr>tt_soldQuantity := tt_soldQuantity t + u_quantity upd\<rparr>) tts of
        Inl e \<Rightarrow> Inl e
      | Inr (updated, tts') \<Rightarrow>
          if tt_soldQuantity updated > u_maxQuantity upd then Inl TICKET_QUANTITY_EXCEEDED
          else updateTicketCounts tts' upds)"

subsection \<open>deductPoints\<close>

text \<open>
  The lots read by \<open>findMany\<close>: the buyer's, not flagged expired, expiring now or later,
  with a positive amount, by ascending expiry date (lots with equal dates keep their
  table order). The loop then decrements lot after lot until nothing remains to deduct.
  Its minima, subtractions and comparisons are those of doubles in the source; they are
  exact, and so the same as here, when the amount to deduct and the amounts of the lots
  read are whole numbers up to \<open>2 ^ 53\<close>.
\<close>

definition deductible :: "env \<Rightarrow> ident \<Rightarrow> UserPoint \<Rightarrow> bool" where
  "deductible env userId p =
     (p_userId p = userId \<and> \<not> p_isExpired p \<and> p_expiryDate p \<ge> now env \<and> p_amount p > 0)"

definition deductiblePoints :: "env \<Rightarrow> ident \<Rightarrow> UserPoint list \<Rightarrow> UserPoint list" where
  "deductiblePoints env userId rows =
     sort_key p_expiryDate (filter (deductible env userId) rows)"

fun deductLoop :: "UserPoint list \<Rightarrow> UserPoint list \<Rightarrow> rat \<Rightarrow> error + (UserPoint list \<times> rat)" where
  "deductLoop rows [] remainingAmount = Inr (rows, remainingAmount)"
| "deductLoop rows (point # points) remainingAmount =
     (if remainingAmount \<le> 0 then Inr (rows, remainingAmount)
      else
        (let deductAmount = min remainingAmount (p_amount point) in
         case update (\<lambda>p. p_id p = p_id point)
                     (\<lambda>p. p\<lparr>p_amount := p_amount p - deductAmount\<rparr>) rows of
           Inl e \<Rightarrow> Inl e
         | Inr (_, rows') \<Rightarrow> deductLoop rows' points (remainingAmount - deductAmount)))"

definition deductPoints :: "env \<Rightarrow> db \<Rightarrow> ident \<Rightarrow> rat \<Rightarrow> error + db" where
  "deductPoints env s userId amount =
     (if amount \<le> 0 then Inr s
      else
        (case deductLoop (userPoint s) (deductiblePoints env userId (userPoint s)) amount of
           Inl e \<Rightarrow> Inl e
         | Inr (rows, remainingAmount) \<Rightarrow>
             if remainingAmount > 0 then Inl POINTS_ERROR
             else Inr (s\<lparr>userPoint := rows\<rparr>)))"

text \<open>
  Steps 7 to 13: the final amount, the row of the booking (the pairs \<open>v\<close> and \<open>c\<close> hold
  the discount and the applied voucher or coupon of steps 5 and 6) and the writes to the
  ledgers. Step 13 tests the request's \<open>pointsUsed > 0\<close>; \<open>pointsDiscount\<close> is
  \<open>pointsUsed\<close> when that is positive and 0 otherwise, so the test is the same on
  \<open>pointsDiscount\<close>.
\<close>

definition bookSeats :: "ident \<Rightarrow> int \<Rightarrow> Event list \<Rightarrow> error + Event list" where
  "bookSeats eid totalTickets rows =
     andThen (update (\<lambda>e. e_id e = eid)
                (\<lambda>e. e\<lparr>e_bookedSeats := e_bookedSeats e + totalTickets\<rparr>) rows)
             (\<lambda>(_, evs). Inr evs)"

definition redeemVoucher :: "EventVoucher option \<Rightarrow> EventVoucher list \<Rightarrow> error + EventVoucher list" where
  "redeemVoucher appliedVoucher rows =
     (case appliedVoucher of
        None \<Rightarrow> Inr rows
      | Some voucher \<Rightarrow>
          andThen (update (\<lambda>x. v_id x = v_id voucher)
                     (\<lambda>x. x\<lparr>v_usedCount := v_usedCount x + 1\<rparr>) rows)
                  (\<lambda>(_, vs). Inr vs))"

definition redeemCoupon :: "UserCoupon option \<Rightarrow> UserCoupon list \<Rightarrow> error + UserCoupon list" where
  "redeemCoupon appliedCoupon rows =
     (case appliedCoupon of
        None \<Rightarrow> Inr rows
      | Some coupon \<Rightarrow>
          andThen (update (\<lambda>x. c_id x = c_id coupon) (\<lambda>x. x\<lparr>c_isUsed := True\<rparr>) rows)
                  (\<lambda>(_, cs). Inr cs))"

definition newTransaction ::
  "env \<Rightarrow> ident \<Rightarrow> TransactionCreateRequest \<Rightarrow> rat \<Rightarrow> rat \<Rightarrow> rat \<times> EventVoucher option
     \<Rightarrow> rat \<times> UserCoupon option \<Rightarrow> TransactionItem list \<Rightarrow> Transaction" where
  "newTransaction env userId req totalAmount pointsDiscount v c items =
     \<lparr>t_id = uuid env, t_userId = userId, t_eventId = eventId req,
      t_status = WAITING_FOR_PAYMENT, t_totalAmount = totalAmount,
      t_pointsUsed = pointsDiscount,
      t_voucherId = map_option v_id (snd v),
      t_voucherDiscount = fst v,
      t_couponId = map_option c_id (snd c),
      t_couponDiscount = fst c,
      t_finalAmount = max 0 (totalAmount - pointsDiscount - fst v - fst c),
      t_expiryTime = addHours env (now env) 2,
      t_items = items\<rparr>"

definition persistTransaction ::
  "env \<Rightarrow> ident \<Rightarrow> TransactionCreateRequest \<Rightarrow> EventTicketType list \<Rightarrow> rat
     \<Rightarrow> TicketUpdate list \<Rightarrow> rat \<Rightarrow> rat \<times> EventVoucher option \<Rightarrow> rat \<times> UserCoupon option
     \<Rightarrow> db \<Rightarrow> error + (Transaction \<times> db)" where
  "persistTransaction env userId req ets totalAmount ticketUpdates pointsDiscount v c s =
     andThen (createItems ets (ticketTypes req)) (\<lambda>items.
     andThen (createTransactionRow
                (newTransaction env userId req totalAmount pointsDiscount v c items) s) (\<lambda>s8.
     andThen (updateTicketCounts (eventTicketType s8) ticketUpdates) (\<lambda>tts.
     andThen (bookSeats (eventId req) (totalTicketsRequested (ticketTypes req)) (event s8)) (\<lambda>evs.
     andThen (redeemVoucher (snd v) (eventVoucher s8)) (\<lambda>vs.
     andThen (redeemCoupon (snd c) (userCoupon s8)) (\<lambda>cs.
     andThen (if pointsDiscount > 0
              then deductPoints env
                     (s8\<lparr>eventTicketType := tts, event := evs, eventVoucher := vs,
                         userCoupon := cs\<rparr>) userId pointsDiscount
              else Inr (s8\<lparr>eventTicketType := tts, event := evs, eventVoucher := vs,
                           userCoupon := cs\<rparr>)) (\<lambda>s13.
     Inr (newTransaction env userId req totalAmount pointsDiscount v c items, s13))))))))"

definition createTransaction_tx ::
  "env \<Rightarrow> ident \<Rightarrow> TransactionCreateRequest \<Rightarrow> db \<Rightarrow> error + (Transaction \<times> db)" where
  "createTransaction_tx env userId req s =
     (case findBookableEvent env s req of
        None \<Rightarrow> Inl EVENT_NOT_AVAILABLE
      | Some (ev, ets) \<Rightarrow>
          if missingTicketTypes ets (ticketTypes req) \<noteq> [] then Inl TICKET_TYPES_NOT_FOUND
          else
            andThen (validateTickets ets (ticketTypes req) 0 []) (\<lambda>(totalAmount, ticketUpdates).
            if totalTicketsRequested (ticketTypes req) > e_availableSeats ev - e_bookedSeats ev
            then Inl INSUFFICIENT_SEATS
            else
              andThen (validatePoints env s userId
                         (case pointsUsed req of None \<Rightarrow> 0 | Some p \<Rightarrow> p) totalAmount)
                (\<lambda>pointsDiscount.
              andThen (validateVoucher env s (eventId req) (voucherCode req) totalAmount) (\<lambda>v.
              andThen (validateCoupon env s userId (couponCode req) totalAmount) (\<lambda>c.
              persistTransaction env userId req ets totalAmount ticketUpdates
                pointsDiscount v c s)))))"

text \<open>
  The method: the input check happens before the database transaction is opened; the
  confirmation e-mail of step 14 is sent inside a \<open>try\<close> whose \<open>catch\<close> only logs, so it
  has no part in the result.
\<close>

definition createTransaction ::
  "env \<Rightarrow> db \<Rightarrow> ident \<Rightarrow> TransactionCreateRequest \<Rightarrow> (error + Transaction) \<times> db" where
  "createTransaction env s userId req =
     (if ticketTypes req = [] then (Inl INVALID_INPUT, s)
      else prisma_transaction (createTransaction_tx env userId req) s)"

subsection \<open>restorePoints, rollbackTransaction, expireTransaction\<close>

text \<open>
  \<open>findFirst({ where: { userId }, orderBy: { createdAt: 'desc' } })\<close>: the buyer's lot
  created last, whatever its expiry date and flag.
\<close>

definition latestPoint :: "UserPoint list \<Rightarrow> ident \<Rightarrow> UserPoint option" where
  "latestPoint rows userId =
     (case sort_key (\<lambda>p. - p_createdAt p) (filter (\<lambda>p. p_userId p = userId) rows) of
        [] \<Rightarrow> None
      | p # _ \<Rightarrow> Some p)"

definition restorePoints :: "env \<Rightarrow> db \<Rightarrow> ident \<Rightarrow> rat \<Rightarrow> error + db" where
  "restorePoints env s userId amount =
     (if amount \<le> 0 then Inr s
      else
        (case latestPoint (userPoint s) userId of
           Some existingPoint \<Rightarrow>
             andThen (update (\<lambda>p. p_id p = p_id existingPoint)
                        (\<lambda>p. p\<lparr>p_amount := p_amount p + amount\<rparr>) (userPoint s))
                     (\<lambda>(_, rows). Inr (s\<lparr>userPoint := rows\<rparr>))
         | None \<Rightarrow>
             (case find (\<lambda>p. p_id p = uuid env) (userPoint s) of
                Some _ \<Rightarrow> Inl P2002
              | None \<Rightarrow>
                  Inr (s\<lparr>userPoint := userPoint s @
                         [\<lparr>p_id = uuid env, p_userId = userId, p_amount = amount,
                           p_sourceType = ''REFUND'',
                           p_expiryDate = addMonths env (now env) 3,
                           p_isExpired = False, p_createdAt = now env\<rparr>]\<rparr>))))"

fun releaseTickets ::
  "EventTicketType list \<Rightarrow> TransactionItem list \<Rightarrow> error + EventTicketType list" where
  "releaseTickets tts [] = Inr tts"
| "releaseTickets tts (item # items) =
     (case update (\<lambda>t. tt_id t = i_ticketTypeId item)
                  (\<lambda>t. t\<lparr>tt_soldQuantity := tt_soldQuantity t - i_quantity item\<rparr>) tts of
        Inl e \<Rightarrow> Inl e
      | Inr (_, tts') \<Rightarrow> releaseTickets tts' items)"

text \<open>
  The four ledger writes of \<open>rollbackTransaction\<close> after the ticket counts.
  \<open>if (transaction.voucherId)\<close> and \<open>if (transaction.couponId)\<close> test a nullable string by
  truthiness: \<open>null\<close> and the empty string both skip the write.
\<close>

definition rollbackBookedSeats :: "ident \<Rightarrow> int \<Rightarrow> Event list \<Rightarrow> error + Event list" where
  "rollbackBookedSeats eid totalTickets rows =
     andThen (update (\<lambda>e. e_id e = eid)
                (\<lambda>e. e\<lparr>e_bookedSeats := e_bookedSeats e - totalTickets\<rparr>) rows)
             (\<lambda>(_, evs). Inr evs)"

definition rollbackVoucher :: "ident option \<Rightarrow> EventVoucher list \<Rightarrow> error + EventVoucher list" where
  "rollbackVoucher voucherId rows =
     (case voucherId of
        None \<Rightarrow> Inr rows
      | Some vid \<Rightarrow>
          if vid = [] then Inr rows
          else andThen (update (\<lambda>x. v_id x = vid)
                          (\<lambda>x. x\<lparr>v_usedCount := v_usedCount x - 1\<rparr>) rows)
                       (\<lambda>(_, vs). Inr vs))"

definition rollbackCoupon :: "ident option \<Rightarrow> UserCoupon list \<Rightarrow> error + UserCoupon list" where
  "rollbackCoupon couponId rows =
     (case couponId of
        None \<Rightarrow> Inr rows
      | Some cid \<Rightarrow>
          if cid = [] then Inr rows
          else andThen (update (\<lambda>x. c_id x = cid) (\<lambda>x. x\<lparr>c_isUsed := False\<rparr>) rows)
                       (\<lambda>(_, cs). Inr cs))"

definition rollbackPoints :: "env \<Rightarrow> Transaction \<Rightarrow> db \<Rightarrow> error + db" where
  "rollbackPoints env tr s =
     (if t_pointsUsed tr > 0 then restorePoints env s (t_userId tr) (t_pointsUsed tr)
      else Inr s)"

definition rollbackTransaction :: "env \<Rightarrow> db \<Rightarrow> ident \<Rightarrow> error + db" where
  "rollbackTransaction env s transactionId =
     (case find (\<lambda>t. t_id t = transactionId) (transaction s) of
        None \<Rightarrow> Inr s
      | Some tr \<Rightarrow>
          andThen (releaseTickets (eventTicketType s) (t_items tr)) (\<lambda>tts.
          andThen (rollbackBookedSeats (t_eventId tr)
                     (foldl (\<lambda>sum item. sum + i_quantity item) 0 (t_items tr)) (event s)) (\<lambda>evs.
          andThen (rollbackVoucher (t_voucherId tr) (eventVoucher s)) (\<lambda>vs.
          andThen (rollbackCoupon (t_couponId tr) (userCoupon s)) (\<lambda>cs.
          rollbackPoints env tr
            (s\<lparr>eventTicketType := tts, event := evs, eventVoucher := vs, userCoupon := cs\<rparr>))))))"

definition setStatus :: "ident \<Rightarrow> TransactionStatus \<Rightarrow> db \<Rightarrow> error + (Transaction \<times> db)" where
  "setStatus transactionId status s =
     andThen (update (\<lambda>t. t_id t = transactionId) (\<lambda>t. t\<lparr>t_status := status\<rparr>) (transaction s))
             (\<lambda>(updated, rows). Inr (updated, s\<lparr>transaction := rows\<rparr>))"

definition expireTransaction :: "env \<Rightarrow> db \<Rightarrow> ident \<Rightarrow> error + db" where
  "expireTransaction env s transactionId =
     (case find (\<lambda>t. t_id t = transactionId) (transaction s) of
        None \<Rightarrow> Inr s
      | Some tr \<Rightarrow>
          if t_status tr \<noteq> WAITING_FOR_PAYMENT then Inr s
          else andThen (setStatus transactionId EXPIRED s)
                       (\<lambda>(_, s1). rollbackTransaction env s1 transactionId))"

subsection \<open>uploadPaymentProof\<close>

text \<open>
  The file store is outside the engine: the argument \<open>file\<close> is what
  \<open>uploadToCloudinary(file)\<close> gives for the uploaded file, the stored URL or \<open>None\<close> when
  the upload throws.
\<close>

definition upsertPayment :: "ident \<Rightarrow> string \<Rightarrow> db \<Rightarrow> TransactionPayment \<times> db" where
  "upsertPayment transactionId paymentProofUrl s =
     (case find (\<lambda>p. pay_transactionId p = transactionId) (transactionPayment s) of
        Some old \<Rightarrow>
          (old\<lparr>pay_paymentProofUrl := paymentProofUrl\<rparr>,
           s\<lparr>transactionPayment :=
                map (\<lambda>p. if pay_transactionId p = transactionId
                          then p\<lparr>pay_paymentProofUrl := paymentProofUrl\<rparr> else p)
                    (transactionPayment s)\<rparr>)
      | None \<Rightarrow>
          (let payment = \<lparr>pay_transactionId = transactionId,
                          pay_paymentProofUrl = paymentProofUrl\<rparr>
           in (payment, s\<lparr>transactionPayment := transactionPayment s @ [payment]\<rparr>)))"

definition uploadPaymentProof_tx ::
  "env \<Rightarrow> ident \<Rightarrow> ident \<Rightarrow> string option \<Rightarrow> db \<Rightarrow> error + (TransactionPayment \<times> db)" where
  "uploadPaymentProof_tx env transactionId userId file s =
     (case find (\<lambda>t. t_id t = transactionId \<and> t_userId t = userId
                      \<and> t_status t = WAITING_FOR_PAYMENT) (transaction s) of
        None \<Rightarrow> Inl TRANSACTION_NOT_FOUND
      | Some tr \<Rightarrow>
          if now env > t_expiryTime tr then
            andThen (expireTransaction env s transactionId) (\<lambda>_. Inl TRANSACTION_EXPIRED)
          else
            (case file of
               None \<Rightarrow> Inl UPLOAD_FAILED
             | Some paymentProofUrl \<Rightarrow>
                 (let (payment, s1) = upsertPayment transactionId paymentProofUrl s in
                  andThen (setStatus transactionId WAITING_FOR_CONFIRMATION s1)
                          (\<lambda>(_, s2). Inr (payment, s2)))))"

definition uploadPaymentProof ::
  "env \<Rightarrow> db \<Rightarrow> ident \<Rightarrow> ident \<Rightarrow> string option \<Rightarrow> (error + TransactionPayment) \<times> db" where
  "uploadPaymentProof env s transactionId userId file =
     prisma_transaction (uploadPaymentProof_tx env transactionId userId file) s"

subsection \<open>confirmTransaction\<close>

text \<open>\<open>event: { organizerId }\<close> filters on the organizer of the booking's event.\<close>

definition organizedBy :: "db \<Rightarrow> ident \<Rightarrow> Transaction \<Rightarrow> bool" where
  "organizedBy s organizerId t =
     (case find (\<lambda>e. e_id e = t_eventId t) (event s) of
        None \<Rightarrow> False
      | Some e \<Rightarrow> e_organizerId e = organizerId)"

definition createAttendee :: "EventAttendee \<Rightarrow> db \<Rightarrow> error + db" where
  "createAttendee row s =
     (case find (\<lambda>a. a_transactionId a = a_transactionId row) (eventAttendee s) of
        Some _ \<Rightarrow> Inl P2002
      | None \<Rightarrow> Inr (s\<lparr>eventAttendee := eventAttendee s @ [row]\<rparr>))"

definition confirmTransaction_tx ::
  "env \<Rightarrow> ident \<Rightarrow> ident \<Rightarrow> bool \<Rightarrow> db \<Rightarrow> error + (Transaction \<times> db)" where
  "confirmTransaction_tx env transactionId organizerId isAccepted s =
     (case find (\<lambda>t. t_id t = transactionId \<and> organizedBy s organizerId t
                      \<and> t_status t = WAITING_FOR_CONFIRMATION) (transaction s) of
        None \<Rightarrow> Inl TRANSACTION_NOT_FOUND
      | Some tr \<Rightarrow>
          (let newStatus = (if isAccepted then DONE else REJECTED) in
           andThen
             (if isAccepted then
                (let totalTickets = foldl (\<lambda>sum item. sum + i_quantity item) 0 (t_items tr) in
                 createAttendee \<lparr>a_eventId = t_eventId tr, a_userId = t_userId tr,
                                 a_transactionId = transactionId,
                                 a_ticketCount = totalTickets,
                                 a_totalPaid = t_finalAmount tr\<rparr> s)
              else rollbackTransaction env s transactionId)
             (\<lambda>s1. setStatus transactionId newStatus s1)))"

definition confirmTransaction ::
  "env \<Rightarrow> db \<Rightarrow> ident \<Rightarrow> ident \<Rightarrow> bool \<Rightarrow> (error + Transaction) \<times> db" where
  "confirmTransaction env s transactionId organizerId isAccepted =
     prisma_transaction (confirmTransaction_tx env transactionId organizerId isAccepted) s"

section \<open>The engine as a whole\<close>

text \<open>
  The calls the engine takes. Expiry has no entry of its own: \<open>expireTransaction\<close> is
  private and its one caller is \<open>uploadPaymentProof\<close>.
\<close>

datatype call =
    CreateTransaction env ident TransactionCreateRequest
  | UploadPaymentProof env ident ident "string option"
  | ConfirmTransaction env ident ident bool

fun perform :: "db \<Rightarrow> call \<Rightarrow> db" where
  "perform s (CreateTransaction env userId req) = snd (createTransaction env s userId req)"
| "perform s (UploadPaymentProof env transactionId userId file) =
     snd (uploadPaymentProof env s transactionId userId file)"
| "perform s (ConfirmTransaction env transactionId organizerId isAccepted) =
     snd (confirmTransaction env s transactionId organizerId isAccepted)"

text \<open>
  The committed states: the engine starts on a database without bookings, in which the
  ticket types have distinct identifiers (the primary key) and sold counters within
  their capacity, and every call, failed or not, commits the state it returns.
\<close>

definition withinCapacity :: "EventTicketType \<Rightarrow> bool" where
  "withinCapacity t = (0 \<le> tt_soldQuantity t \<and> tt_soldQuantity t \<le> tt_quantity t)"

inductive reachable :: "db \<Rightarrow> bool" where
  start: "transaction s = [] \<Longrightarrow> distinct (map tt_id (eventTicketType s))
            \<Longrightarrow> list_all withinCapacity (eventTicketType s) \<Longrightarrow> reachable s"
| step: "reachable s \<Longrightarrow> reachable (perform s c)"

text \<open>
  The tickets of a type that the lines of a booking ask for, and the tickets of a type
  held by the bookings whose reservation stands: those waiting for payment or for
  confirmation and those confirmed.
\<close>

definition lineQuantity :: "ident \<Rightarrow> TransactionItem list \<Rightarrow> int" where
  "lineQuantity k items = sum_list (map i_quantity (filter (\<lambda>i. i_ticketTypeId i = k) items))"

definition holding :: "Transaction \<Rightarrow> bool" where
  "holding t = (t_status t = WAITING_FOR_PAYMENT \<or> t_status t = WAITING_FOR_CONFIRMATION
                \<or> t_status t = DONE)"

definition held :: "db \<Rightarrow> ident \<Rightarrow> int" where
  "held s k = sum_list (map (\<lambda>t. lineQuantity k (t_items t)) (filter holding (transaction s)))"

text \<open>
  What the round trip of a booking is measured on: the sold counters, the booked seats,
  the vouchers, the coupons, and the sum of the amounts of the buyer's point lots. It is
  stated for databases in which coupons and point lots have unique identifiers (their
  primary keys) and no voucher or coupon has the empty identifier.
\<close>

definition pointTotal :: "db \<Rightarrow> ident \<Rightarrow> rat" where
  "pointTotal s userId =
     sum_list (map p_amount (filter (\<lambda>p. p_userId p = userId) (userPoint s)))"



text \<open>
  The invariant behind the bound on the sold counters: identifiers are unique, no line of
  a booking has a negative quantity, and every sold counter lies between the tickets
  held against its type and the capacity of the type.
\<close>

definition ledgerInvariant :: "db \<Rightarrow> bool" where
  "ledgerInvariant s =
     (distinct (map tt_id (eventTicketType s)) \<and> distinct (map t_id (transaction s))
      \<and> (\<forall>t\<in>set (transaction s). \<forall>i\<in>set (t_items t). 0 \<le> i_quantity i)
      \<and> (\<forall>tt\<in>set (eventTicketType s).
            held s (tt_id tt) \<le> tt_soldQuantity tt \<and> tt_soldQuantity tt \<le> tt_quantity tt))"

section \<open>A worked booking\<close>

text \<open>
  One event of organizer \<open>o1\<close> with ten seats and one ticket type of five tickets at 100;
  a ten-percent voucher, a fixed coupon of 20 for buyer \<open>u1\<close>, and two point lots of that
  buyer: 50 points expiring at time 100, and an empty lot, created later, that ran out at
  time 5. In these examples months are taken as thirty days and hours as sixty minutes
  (no daylight-saving change falls in them), and the codes are written in ASCII, where
  the characters are their own code units.
\<close>

definition thirtyDays :: "date \<Rightarrow> int \<Rightarrow> date" where
  "thirtyDays d months = d + months * 2592000000"

definition sixtyMinutes :: "date \<Rightarrow> int \<Rightarrow> date" where
  "sixtyMinutes d hours = d + hours * 3600000"

definition clock :: "date \<Rightarrow> ident \<Rightarrow> env" where
  "clock t i = \<lparr>now = t, uuid = i, addMonths = thirtyDays, addHours = sixtyMinutes\<rparr>"

definition utf16 :: "string \<Rightarrow> codeUnits" where
  "utf16 s = map of_char s"

definition shop :: db where
  "shop =
     \<lparr>event = [\<lparr>e_id = ''e1'', e_organizerId = ''o1'', e_startDate = 1000,
                 e_availableSeats = 10, e_bookedSeats = 0, e_isPublished = True\<rparr>],
      eventTicketType = [\<lparr>tt_id = ''t1'', tt_eventId = ''e1'', tt_price = 100,
                           tt_quantity = 5, tt_soldQuantity = 0\<rparr>],
      eventVoucher = [\<lparr>v_id = ''v1'', v_eventId = ''e1'', v_code = utf16 ''V'',
                        v_discountType = PERCENTAGE, v_discountValue = 10, v_maxUsage = 1,
                        v_usedCount = 0, v_minPurchaseAmount = 0, v_startDate = 0,
                        v_endDate = 500\<rparr>],
      couponTemplate = [\<lparr>ct_id = ''ct1'', ct_discountType = FIXED, ct_discountValue = 20,
                          ct_minPurchaseAmount = 0, ct_maxDiscountAmount = None\<rparr>],
      userCoupon = [\<lparr>c_id = ''c1'', c_userId = ''u1'', c_couponTemplateId = ''ct1'',
                      c_code = utf16 ''C'', c_isUsed = False, c_expiryDate = 500\<rparr>],
      userPoint = [\<lparr>p_id = ''p1'', p_userId = ''u1'', p_amount = 50,
                     p_sourceType = ''REFERRAL'', p_expiryDate = 100, p_isExpired = False,
                     p_createdAt = 1\<rparr>,
                   \<lparr>p_id = ''p2'', p_userId = ''u1'', p_amount = 0,
                     p_sourceType = ''REFERRAL'', p_expiryDate = 5, p_isExpired = False,
                     p_createdAt = 2\<rparr>],
      transaction = [], eventAttendee = [], transactionPayment = []\<rparr>"

text \<open>Two tickets, paid in part with 50 points, the voucher and the coupon.\<close>

definition order :: TransactionCreateRequest where
  "order = \<lparr>eventId = ''e1'', ticketTypes = [\<lparr>ticketTypeId = ''t1'', quantity = 2\<rparr>],
            pointsUsed = Some 50, voucherCode = Some (utf16 '' V ''),
            couponCode = Some (utf16 ''C'')\<rparr>"

text \<open>The database after the booking, after the payment proof, and after the rejection.\<close>

definition booked :: db where
  "booked = snd (createTransaction (clock 10 ''x1'') shop ''u1'' order)"

definition paid :: db where
  "paid = snd (uploadPaymentProof (clock 11 ''x2'') booked ''x1'' ''u1'' (Some ''proof.png''))"

definition rejected :: db where
  "rejected = snd (confirmTransaction (clock 12 ''x3'') paid ''x1'' ''o1'' False)"

definition bookedRow :: Transaction where
  "bookedRow =
     \<lparr>t_id = ''x1'', t_userId = ''u1'', t_eventId = ''e1'', t_status = WAITING_FOR_PAYMENT,
      t_totalAmount = 200, t_pointsUsed = 50, t_voucherId = Some ''v1'',
      t_voucherDiscount = 20, t_couponId = Some ''c1'', t_couponDiscount = 20,
      t_finalAmount = 110, t_expiryTime = 7200010,
      t_items = [\<lparr>i_ticketTypeId = ''t1'', i_quantity = 2, i_pricePerTicket = 100,
                  i_subtotal = 200\<rparr>]\<rparr>"

text \<open>
  The same two tickets without points or codes, and the row such a booking gets under
  the identifier \<open>i\<close> at time \<open>t\<close>.
\<close>

definition plainOrder :: TransactionCreateRequest where
  "plainOrder = \<lparr>eventId = ''e1'', ticketTypes = [\<lparr>ticketTypeId = ''t1'', quantity = 2\<rparr>],
                 pointsUsed = None, voucherCode = None, couponCode = None\<rparr>"



definition sixTickets :: TransactionCreateRequest where
  "sixTickets = plainOrder\<lparr>ticketTypes := [\<lparr>ticketTypeId = ''t1'', quantity = 6\<rparr>]\<rparr>"



definition smallHall :: db where
  "smallHall = shop\<lparr>event :=
                 [\<lparr>e_id = ''e1'', e_organizerId = ''o1'', e_startDate = 1000,
                   e_availableSeats = 1, e_bookedSeats = 0, e_isPublished = True\<rparr>]\<rparr>"

text \<open>The point lots of the example for \<open>deductPoints\<close>.\<close>

definition wallet :: db where
  "wallet = shop\<lparr>userPoint :=
     [\<lparr>p_id = ''a'', p_userId = ''u1'', p_amount = 30, p_sourceType = ''REFERRAL'',
       p_expiryDate = 300, p_isExpired = False, p_createdAt = 1\<rparr>,
      \<lparr>p_id = ''b'', p_userId = ''u1'', p_amount = 20, p_sourceType = ''REFERRAL'',
       p_expiryDate = 100, p_isExpired = False, p_createdAt = 2\<rparr>,
      \<lparr>p_id = ''c'', p_userId = ''u1'', p_amount = 10, p_sourceType = ''REFUND'',
       p_expiryDate = 200, p_isExpired = False, p_createdAt = 3\<rparr>,
      \<lparr>p_id = ''d'', p_userId = ''u1'', p_amount = 100, p_sourceType = ''REFERRAL'',
       p_expiryDate = 400, p_isExpired = True, p_createdAt = 4\<rparr>,
      \<lparr>p_id = ''e'', p_userId = ''u1'', p_amount = 7, p_sourceType = ''REFERRAL'',
       p_expiryDate = 40, p_isExpired = False, p_createdAt = 5\<rparr>,
      \<lparr>p_id = ''f'', p_userId = ''u2'', p_amount = 9, p_sourceType = ''REFERRAL'',
       p_expiryDate = 60, p_isExpired = False, p_createdAt = 6\<rparr>]\<rparr>"

text \<open>
  The row of the worked booking once rejected, and the database of the point lots after
  a booking that spends 25 points has been made at time 50, paid and rejected.
\<close>

definition rejectedRow :: Transaction where
  "rejectedRow = bookedRow\<lparr>t_status := REJECTED\<rparr>"

definition refunded :: db where
  "refunded =
     snd (confirmTransaction (clock 52 ''x3'')
            (snd (uploadPaymentProof (clock 51 ''x2'')
                    (snd (createTransaction (clock 50 ''x1'') wallet ''u1''
                            (plainOrder\<lparr>pointsUsed := Some 25\<rparr>)))
                    ''x1'' ''u1'' (Some ''proof.png'')))
            ''x1'' ''o1'' False)"

section \<open>Basic facts about the client\<close>

lemma andThen_Inr [simp]: "andThen (Inr x) f = f x"
  by (simp add: andThen_def)

lemma andThen_Inl [simp]: "andThen (Inl e) f = Inl e"
  by (simp add: andThen_def)

lemma andThen_Inr_iff: "andThen m f = Inr y \<longleftrightarrow> (\<exists>x. m = Inr x \<and> f x = Inr y)"
  by (cases m) simp_all

lemma andThen_Inl_iff:
  "andThen m f = Inl e \<longleftrightarrow> (m = Inl e \<or> (\<exists>x. m = Inr x \<and> f x = Inl e))"
  by (cases m) simp_all

lemma prisma_transaction_Inl:
  "prisma_transaction body s = (Inl e, s') \<Longrightarrow> s' = s \<and> body s = Inl e"
  by (auto simp: prisma_transaction_def split: sum.splits prod.splits)

lemma prisma_transaction_Inr:
  "prisma_transaction body s = (Inr r, s') \<longleftrightarrow> body s = Inr (r, s')"
  by (auto simp: prisma_transaction_def split: sum.splits prod.splits)

lemma prisma_transaction_fails:
  "body s = Inl e \<Longrightarrow> prisma_transaction body s = (Inl e, s)"
  by (simp add: prisma_transaction_def)


lemma createTransaction_Inl: "createTransaction env s userId req = (Inl e, s') \<Longrightarrow> s' = s"
  by (auto simp: createTransaction_def dest: prisma_transaction_Inl split: if_splits)

lemma uploadPaymentProof_Inl: "uploadPaymentProof env s tid uid file = (Inl e, s') \<Longrightarrow> s' = s"
  by (auto simp: uploadPaymentProof_def dest: prisma_transaction_Inl)

lemma confirmTransaction_Inl: "confirmTransaction env s tid org acc = (Inl e, s') \<Longrightarrow> s' = s"
  by (auto simp: confirmTransaction_def dest: prisma_transaction_Inl)

lemma update_Inr_iff:
  "update key f rows = Inr (r, rows') \<longleftrightarrow>
     (\<exists>x. find key rows = Some x \<and> r = f x
          \<and> rows' = map (\<lambda>x. if key x then f x else x) rows)"
  by (auto simp: update_def split: option.splits)

lemma update_Inl_iff: "update key f rows = Inl e \<longleftrightarrow> (find key rows = None \<and> e = P2025)"
  by (auto simp: update_def split: option.splits)

lemma find_Some_set: "find P xs = Some x \<Longrightarrow> x \<in> set xs \<and> P x"
  by (auto simp: find_Some_iff)

lemma find_weaken:
  "find P xs = Some x \<Longrightarrow> (\<And>y. P y \<Longrightarrow> Q y) \<Longrightarrow> \<exists>y. find Q xs = Some y"
  by (cases "find Q xs") (auto simp: find_None_iff dest: find_Some_set)


section \<open>Which tables the steps write\<close>

lemma setStatus_Inr_iff:
  "setStatus tid st s = Inr (tr, s') \<longleftrightarrow>
     (\<exists>x. find (\<lambda>t. t_id t = tid) (transaction s) = Some x \<and> tr = x\<lparr>t_status := st\<rparr>
          \<and> s' = s\<lparr>transaction := map (\<lambda>t. if t_id t = tid then t\<lparr>t_status := st\<rparr> else t)
                                       (transaction s)\<rparr>)"
  by (auto simp: setStatus_def andThen_Inr_iff update_Inr_iff)

lemma restorePoints_transaction:
  "restorePoints env s uid amount = Inr s' \<Longrightarrow> transaction s' = transaction s"
  unfolding restorePoints_def
  by (auto simp: andThen_Inr_iff split: if_splits option.splits)

lemma rollbackPoints_transaction:
  "rollbackPoints env tr s = Inr s' \<Longrightarrow> transaction s' = transaction s"
  unfolding rollbackPoints_def
  by (auto dest: restorePoints_transaction split: if_splits)

lemma rollbackTransaction_Inr_iff:
  "rollbackTransaction env s tid = Inr s' \<longleftrightarrow>
     (case find (\<lambda>t. t_id t = tid) (transaction s) of
        None \<Rightarrow> s' = s
      | Some tr \<Rightarrow>
          (\<exists>tts evs vs cs.
             releaseTickets (eventTicketType s) (t_items tr) = Inr tts
           \<and> rollbackBookedSeats (t_eventId tr)
                (foldl (\<lambda>sum item. sum + i_quantity item) 0 (t_items tr)) (event s) = Inr evs
           \<and> rollbackVoucher (t_voucherId tr) (eventVoucher s) = Inr vs
           \<and> rollbackCoupon (t_couponId tr) (userCoupon s) = Inr cs
           \<and> rollbackPoints env tr
                (s\<lparr>eventTicketType := tts, event := evs, eventVoucher := vs, userCoupon := cs\<rparr>)
               = Inr s'))"
  unfolding rollbackTransaction_def
  by (cases "find (\<lambda>t. t_id t = tid) (transaction s)") (auto simp: andThen_Inr_iff)

lemma rollbackTransaction_transaction:
  assumes "rollbackTransaction env s tid = Inr s'"
  shows "transaction s' = transaction s"
proof (cases "find (\<lambda>t. t_id t = tid) (transaction s)")
  case None
  then show ?thesis using assms by (simp add: rollbackTransaction_Inr_iff)
next
  case (Some tr)
  then obtain s1 where "rollbackPoints env tr s1 = Inr s'" and "transaction s1 = transaction s"
    using assms by (auto simp: rollbackTransaction_Inr_iff)
  then show ?thesis
    using rollbackPoints_transaction by fastforce
qed

lemma createAttendee_transaction:
  "createAttendee row s = Inr s' \<Longrightarrow> transaction s' = transaction s"
  by (auto simp: createAttendee_def split: option.splits)

lemma confirmTransaction_tx_Inr:
  assumes "confirmTransaction_tx env tid org acc s = Inr (tr, s1)"
  shows "t_status tr = (if acc then DONE else REJECTED)
       \<and> transaction s1 = map (\<lambda>t. if t_id t = tid
                                     then t\<lparr>t_status := (if acc then DONE else REJECTED)\<rparr> else t)
                                (transaction s)"
proof -
  obtain tr0 where "find (\<lambda>t. t_id t = tid \<and> organizedBy s org t
                      \<and> t_status t = WAITING_FOR_CONFIRMATION) (transaction s) = Some tr0"
    using assms unfolding confirmTransaction_tx_def by (auto split: option.splits)
  then obtain s' where mid: "(if acc then
                (let totalTickets = foldl (\<lambda>sum item. sum + i_quantity item) 0 (t_items tr0) in
                 createAttendee \<lparr>a_eventId = t_eventId tr0, a_userId = t_userId tr0,
                                 a_transactionId = tid,
                                 a_ticketCount = totalTickets,
                                 a_totalPaid = t_finalAmount tr0\<rparr> s)
              else rollbackTransaction env s tid) = Inr s'"
    and st: "setStatus tid (if acc then DONE else REJECTED) s' = Inr (tr, s1)"
    using assms unfolding confirmTransaction_tx_def by (auto simp: andThen_Inr_iff Let_def)
  have "transaction s' = transaction s"
    using mid rollbackTransaction_transaction createAttendee_transaction
    by (auto simp: Let_def split: if_splits)
  then show ?thesis
    using st by (auto simp: setStatus_Inr_iff)
qed

lemma find_status_changed:
  "st \<noteq> st' \<Longrightarrow>
   find (\<lambda>t. t_id t = tid \<and> P t \<and> t_status t = st')
        (map (\<lambda>t. if t_id t = tid then t\<lparr>t_status := st\<rparr> else t) rows) = None"
  by (induction rows) simp_all

section \<open>The steps of createTransaction\<close>

lemma createTransaction_tx_Inr_iff:
  "createTransaction_tx env userId req s = Inr r \<longleftrightarrow>
     (\<exists>ev ets totalAmount ticketUpdates pointsDiscount v c.
        findBookableEvent env s req = Some (ev, ets)
      \<and> missingTicketTypes ets (ticketTypes req) = []
      \<and> validateTickets ets (ticketTypes req) 0 [] = Inr (totalAmount, ticketUpdates)
      \<and> totalTicketsRequested (ticketTypes req) \<le> e_availableSeats ev - e_bookedSeats ev
      \<and> validatePoints env s userId (case pointsUsed req of None \<Rightarrow> 0 | Some p \<Rightarrow> p)
           totalAmount = Inr pointsDiscount
      \<and> validateVoucher env s (eventId req) (voucherCode req) totalAmount = Inr v
      \<and> validateCoupon env s userId (couponCode req) totalAmount = Inr c
      \<and> persistTransaction env userId req ets totalAmount ticketUpdates pointsDiscount v c s
          = Inr r)"
proof (cases "findBookableEvent env s req")
  case None
  then show ?thesis by (simp add: createTransaction_tx_def)
next
  case (Some a)
  obtain ev ets where a: "a = (ev, ets)" by (cases a)
  show ?thesis
    unfolding createTransaction_tx_def Some a
    by (auto simp: andThen_Inr_iff not_less)
qed

lemma createTransaction_Inr_iff:
  "createTransaction env s userId req = (Inr tr, s') \<longleftrightarrow>
     (ticketTypes req \<noteq> [] \<and> createTransaction_tx env userId req s = Inr (tr, s'))"
  by (simp add: createTransaction_def prisma_transaction_Inr)


lemma createTransaction_tx_seats:
  assumes "findBookableEvent env s req = Some (ev, ets)"
    and "totalTicketsRequested (ticketTypes req) > e_availableSeats ev - e_bookedSeats ev"
  shows "\<exists>e. createTransaction_tx env userId req s = Inl e"
    and "missingTicketTypes ets (ticketTypes req) = [] \<Longrightarrow>
         validateTickets ets (ticketTypes req) 0 [] = Inr x \<Longrightarrow>
         createTransaction_tx env userId req s = Inl INSUFFICIENT_SEATS"
proof -
  show "\<exists>e. createTransaction_tx env userId req s = Inl e"
  proof (cases "createTransaction_tx env userId req s")
    case (Inl e)
    then show ?thesis by simp
  next
    case (Inr r)
    then show ?thesis
      using assms by (auto simp: createTransaction_tx_Inr_iff)
  qed
  show "missingTicketTypes ets (ticketTypes req) = [] \<Longrightarrow>
         validateTickets ets (ticketTypes req) 0 [] = Inr x \<Longrightarrow>
         createTransaction_tx env userId req s = Inl INSUFFICIENT_SEATS"
    using assms by (cases x) (simp add: createTransaction_tx_def)
qed

lemma persistTransaction_row:
  assumes "persistTransaction env userId req ets totalAmount ticketUpdates pointsDiscount v c s
             = Inr (tr, s')"
  shows "\<exists>items. createItems ets (ticketTypes req) = Inr items
           \<and> tr = newTransaction env userId req totalAmount pointsDiscount v c items"
  using assms unfolding persistTransaction_def
  by (auto simp: andThen_Inr_iff)

lemma validateVoucher_applied:
  assumes "validateVoucher env s eid code totalAmount = Inr (d, Some voucher)"
  shows "voucher \<in> set (eventVoucher s)
       \<and> d = calculateDiscount totalAmount (v_discountType voucher) (v_discountValue voucher) None"
  using assms unfolding validateVoucher_def findVoucher_def
  by (auto split: option.splits if_splits dest: find_Some_set)

lemma validateCoupon_applied:
  assumes "validateCoupon env s userId code totalAmount = Inr (d, Some coupon)"
  shows "coupon \<in> set (userCoupon s)
       \<and> (\<exists>template \<in> set (couponTemplate s). ct_id template = c_couponTemplateId coupon
            \<and> d = calculateDiscount totalAmount (ct_discountType template)
                     (ct_discountValue template) (ct_maxDiscountAmount template))"
  using assms unfolding validateCoupon_def findCoupon_def
  by (auto split: option.splits if_splits dest: find_Some_set)

lemma calculateDiscount_uncapped:
  "calculateDiscount amount PERCENTAGE discountValue None = min (amount * discountValue / 100) amount"
  by (simp add: calculateDiscount_def)

section \<open>Discount codes that do not resolve\<close>

lemma trim_Nil [simp]: "trim [] = []"
  by (simp add: trim_def)



lemma validate_no_code [simp]:
  "validateVoucher env s eid None totalAmount = Inr (0, None)"
  "validateCoupon env s userId None totalAmount = Inr (0, None)"
  by (simp_all add: validateVoucher_def validateCoupon_def)

lemma findBookableEvent_codes [simp]:
  "findBookableEvent env s (req\<lparr>voucherCode := x\<rparr>) = findBookableEvent env s req"
  "findBookableEvent env s (req\<lparr>couponCode := y\<rparr>) = findBookableEvent env s req"
  by (simp_all add: findBookableEvent_def cong: option.case_cong)

lemma persistTransaction_codes [simp]:
  "persistTransaction env userId (req\<lparr>voucherCode := x\<rparr>) = persistTransaction env userId req"
  "persistTransaction env userId (req\<lparr>couponCode := y\<rparr>) = persistTransaction env userId req"
  by (simp_all add: persistTransaction_def newTransaction_def fun_eq_iff)



section \<open>Discount codes that resolve but cannot be applied\<close>


lemma newTransaction_totalAmount [simp]:
  "t_totalAmount (newTransaction env userId req totalAmount pointsDiscount v c items) = totalAmount"
  by (simp add: newTransaction_def)







lemma confirmTransaction_succeeds:
  assumes tr0: "find (\<lambda>t. t_id t = tid \<and> organizedBy s org t
                   \<and> t_status t = WAITING_FOR_CONFIRMATION) (transaction s) = Some tr0"
    and ok: "if acc then find (\<lambda>a. a_transactionId a = tid) (eventAttendee s) = None
             else (\<exists>sR. rollbackTransaction env s tid = Inr sR)"
  shows "\<exists>tr s1. confirmTransaction env s tid org acc = (Inr tr, s1)"
proof -
  obtain x where x: "find (\<lambda>t. t_id t = tid) (transaction s) = Some x"
    using find_weaken [OF tr0, of "\<lambda>t. t_id t = tid"] by auto
  have st: "\<exists>r. setStatus tid st s' = Inr r" if "transaction s' = transaction s" for s' st
    using x that by (simp add: setStatus_def update_def)
  have "\<exists>r. confirmTransaction_tx env tid org acc s = Inr r"
  proof (cases acc)
    case True
    define row where "row = \<lparr>a_eventId = t_eventId tr0, a_userId = t_userId tr0,
            a_transactionId = tid,
            a_ticketCount = foldl (\<lambda>sum item. sum + i_quantity item) 0 (t_items tr0),
            a_totalPaid = t_finalAmount tr0\<rparr>"
    have "createAttendee row s = Inr (s\<lparr>eventAttendee := eventAttendee s @ [row]\<rparr>)"
      using ok True by (simp add: createAttendee_def row_def)
    moreover have "\<exists>r. setStatus tid DONE (s\<lparr>eventAttendee := eventAttendee s @ [row]\<rparr>) = Inr r"
      by (rule st) simp
    ultimately show ?thesis
      using tr0 True by (auto simp: confirmTransaction_tx_def Let_def row_def)
  next
    case False
    then obtain sR where sR: "rollbackTransaction env s tid = Inr sR"
      using ok by auto
    then have "\<exists>r. setStatus tid REJECTED sR = Inr r"
      using rollbackTransaction_transaction [OF sR] by (intro st)
    then show ?thesis
      using tr0 False sR by (auto simp: confirmTransaction_tx_def Let_def)
  qed
  then obtain tr s1 where "confirmTransaction_tx env tid org acc s = Inr (tr, s1)"
    by auto
  then show ?thesis
    by (auto simp: confirmTransaction_def prisma_transaction_def)
qed

lemma confirmTransaction_once:
  assumes "confirmTransaction env s tid org acc = (Inr tr, s1)"
  shows "(\<exists>tr0 \<in> set (transaction s). t_id tr0 = tid \<and> t_status tr0 = WAITING_FOR_CONFIRMATION)
       \<and> t_status tr = (if acc then DONE else REJECTED)
       \<and> confirmTransaction env' s1 tid org' acc' = (Inl TRANSACTION_NOT_FOUND, s1)"
proof -
  from assms have tx: "confirmTransaction_tx env tid org acc s = Inr (tr, s1)"
    by (simp add: confirmTransaction_def prisma_transaction_Inr)
  note r = confirmTransaction_tx_Inr [OF tx]
  obtain tr0 where "find (\<lambda>t. t_id t = tid \<and> organizedBy s org t
                      \<and> t_status t = WAITING_FOR_CONFIRMATION) (transaction s) = Some tr0"
    using tx unfolding confirmTransaction_tx_def by (auto split: option.splits)
  then have first: "\<exists>tr0 \<in> set (transaction s). t_id tr0 = tid
                      \<and> t_status tr0 = WAITING_FOR_CONFIRMATION"
    by (auto dest: find_Some_set)
  have "DONE \<noteq> WAITING_FOR_CONFIRMATION" "REJECTED \<noteq> WAITING_FOR_CONFIRMATION"
    by simp_all
  then have "find (\<lambda>t. t_id t = tid \<and> organizedBy s1 org' t
                     \<and> t_status t = WAITING_FOR_CONFIRMATION) (transaction s1) = None"
    using r find_status_changed [of _ WAITING_FOR_CONFIRMATION tid "organizedBy s1 org'"
            "transaction s"]
    by (cases acc) simp_all
  then have "confirmTransaction_tx env' tid org' acc' s1 = Inl TRANSACTION_NOT_FOUND"
    by (simp add: confirmTransaction_tx_def)
  then show ?thesis
    using r first by (simp add: confirmTransaction_def prisma_transaction_def)
qed

section \<open>The loop of deductPoints\<close>

lemma find_distinct_id:
  assumes "distinct (map f rows)" and "p \<in> set rows"
  shows "find (\<lambda>x. f x = f p) rows = Some p"
  using assms by (induction rows) (auto simp: rev_image_eqI)

lemma deductLoop_spec:
  assumes "distinct (map p_id rows)" and "set pts \<subseteq> set rows"
    and "distinct (map p_id pts)" and "\<forall>p\<in>set pts. p_amount p > 0"
    and "sorted (map p_expiryDate pts)" and "0 \<le> rem"
  shows "\<exists>taken.
           deductLoop rows pts rem =
             Inr (map (\<lambda>r. r\<lparr>p_amount := p_amount r - taken (p_id r)\<rparr>) rows,
                  rem - sum_list (map (\<lambda>p. taken (p_id p)) pts))
         \<and> (\<forall>i. i \<notin> p_id ` set pts \<longrightarrow> taken i = 0)
         \<and> (\<forall>p\<in>set pts. 0 \<le> taken (p_id p) \<and> taken (p_id p) \<le> p_amount p)
         \<and> sum_list (map (\<lambda>p. taken (p_id p)) pts) = min rem (sum_list (map p_amount pts))
         \<and> (\<forall>p\<in>set pts. \<forall>q\<in>set pts.
               p_expiryDate p < p_expiryDate q \<and> taken (p_id q) > 0
               \<longrightarrow> taken (p_id p) = p_amount p)"
  using assms
proof (induction pts arbitrary: rows rem)
  case Nil
  have "map (\<lambda>r. r\<lparr>p_amount := p_amount r - 0\<rparr>) rows = rows"
    by (induction rows) simp_all
  then show ?case
    using Nil by (intro exI [of _ "\<lambda>_. 0"]) simp
next
  case (Cons p ps)
  have pos: "0 \<le> sum_list (map p_amount (p # ps))"
    using Cons.prems(4) by (intro sum_list_nonneg) auto
  show ?case
  proof (cases "rem \<le> 0")
    case True
    then have "rem = 0" using Cons.prems(6) by simp
    have "map (\<lambda>r. r\<lparr>p_amount := p_amount r - 0\<rparr>) rows = rows"
      by (induction rows) simp_all
    then show ?thesis
      using \<open>rem = 0\<close> pos Cons.prems(4)
      by (intro exI [of _ "\<lambda>_. 0"]) (auto simp: min_def intro: less_imp_le)
  next
    case False
    define d where "d = min rem (p_amount p)"
    define rows1 where
      "rows1 = map (\<lambda>x. if p_id x = p_id p then x\<lparr>p_amount := p_amount x - d\<rparr> else x) rows"
    have p_in: "p \<in> set rows" using Cons.prems(2) by simp
    have fnd: "find (\<lambda>x. p_id x = p_id p) rows = Some p"
      using find_distinct_id [OF Cons.prems(1) p_in] .
    have step: "deductLoop rows (p # ps) rem = deductLoop rows1 ps (rem - d)"
      using False fnd unfolding d_def rows1_def by (simp add: update_def Let_def)
    have ids1: "map p_id rows1 = map p_id rows"
      by (simp add: rows1_def comp_def if_distrib cong: if_cong)
    have notin: "p_id p \<notin> p_id ` set ps"
      using Cons.prems(3) by simp
    have ne: "p_id q \<noteq> p_id p" if "q \<in> set ps" for q
      using that notin by (auto simp: image_iff)
    have sub1: "set ps \<subseteq> set rows1"
    proof
      fix q assume q: "q \<in> set ps"
      then have "q \<in> set rows" "p_id q \<noteq> p_id p"
        using Cons.prems(2) notin by (auto simp: image_iff)
      then show "q \<in> set rows1"
        by (force simp: rows1_def)
    qed
    have d0: "0 \<le> d" "d \<le> rem" "d \<le> p_amount p" "0 < p_amount p"
      using False Cons.prems(4) by (auto simp: d_def)
    have "\<exists>taken'.
           deductLoop rows1 ps (rem - d) =
             Inr (map (\<lambda>r. r\<lparr>p_amount := p_amount r - taken' (p_id r)\<rparr>) rows1,
                  rem - d - sum_list (map (\<lambda>p. taken' (p_id p)) ps))
         \<and> (\<forall>i. i \<notin> p_id ` set ps \<longrightarrow> taken' i = 0)
         \<and> (\<forall>p\<in>set ps. 0 \<le> taken' (p_id p) \<and> taken' (p_id p) \<le> p_amount p)
         \<and> sum_list (map (\<lambda>p. taken' (p_id p)) ps)
             = min (rem - d) (sum_list (map p_amount ps))
         \<and> (\<forall>p\<in>set ps. \<forall>q\<in>set ps.
               p_expiryDate p < p_expiryDate q \<and> taken' (p_id q) > 0
               \<longrightarrow> taken' (p_id p) = p_amount p)"
    proof (rule Cons.IH)
      show "distinct (map p_id rows1)" using ids1 Cons.prems(1) by simp
      show "set ps \<subseteq> set rows1" by (rule sub1)
      show "distinct (map p_id ps)" using Cons.prems(3) by simp
      show "\<forall>p\<in>set ps. 0 < p_amount p" using Cons.prems(4) by simp
      show "sorted (map p_expiryDate ps)" using Cons.prems(5) by simp
      show "0 \<le> rem - d" using d0 by simp
    qed
    then obtain taken' where
      loop: "deductLoop rows1 ps (rem - d) =
             Inr (map (\<lambda>r. r\<lparr>p_amount := p_amount r - taken' (p_id r)\<rparr>) rows1,
                  rem - d - sum_list (map (\<lambda>p. taken' (p_id p)) ps))" and
      zero: "\<forall>i. i \<notin> p_id ` set ps \<longrightarrow> taken' i = 0" and
      bounds: "\<forall>p\<in>set ps. 0 \<le> taken' (p_id p) \<and> taken' (p_id p) \<le> p_amount p" and
      total: "sum_list (map (\<lambda>p. taken' (p_id p)) ps) = min (rem - d) (sum_list (map p_amount ps))" and
      greedy: "\<forall>p\<in>set ps. \<forall>q\<in>set ps.
               p_expiryDate p < p_expiryDate q \<and> taken' (p_id q) > 0
               \<longrightarrow> taken' (p_id p) = p_amount p"
      by blast
    define taken where "taken = taken'(p_id p := d)"
    have same: "taken (p_id q) = taken' (p_id q)" if "q \<in> set ps" for q
      using ne [OF that] by (simp add: taken_def)
    have sums: "sum_list (map (\<lambda>p. taken (p_id p)) ps) = sum_list (map (\<lambda>p. taken' (p_id p)) ps)"
      using same by (intro arg_cong [where f = sum_list] map_cong) auto
    have rows_eq: "map (\<lambda>r. r\<lparr>p_amount := p_amount r - taken' (p_id r)\<rparr>) rows1
                 = map (\<lambda>r. r\<lparr>p_amount := p_amount r - taken (p_id r)\<rparr>) rows"
      using zero notin by (auto simp: rows1_def taken_def)
    have psum: "0 \<le> sum_list (map p_amount ps)"
      using Cons.prems(4) by (intro sum_list_nonneg) auto
    have tot: "d + min (rem - d) (sum_list (map p_amount ps))
                 = min rem (p_amount p + sum_list (map p_amount ps))"
      using d0 psum by (auto simp: d_def min_def)
    have c1: "deductLoop rows (p # ps) rem =
             Inr (map (\<lambda>r. r\<lparr>p_amount := p_amount r - taken (p_id r)\<rparr>) rows,
                  rem - sum_list (map (\<lambda>p. taken (p_id p)) (p # ps)))"
      using step loop rows_eq sums by (simp add: taken_def)
    have c2: "\<forall>i. i \<notin> p_id ` set (p # ps) \<longrightarrow> taken i = 0"
      using zero by (auto simp: taken_def)
    have c3: "\<forall>q\<in>set (p # ps). 0 \<le> taken (p_id q) \<and> taken (p_id q) \<le> p_amount q"
      using bounds d0 same by (auto simp: taken_def)
    have c4: "sum_list (map (\<lambda>p. taken (p_id p)) (p # ps))
                = min rem (sum_list (map p_amount (p # ps)))"
      using sums total tot by (simp add: taken_def)
    have c5: "taken (p_id a) = p_amount a"
      if a: "a \<in> set (p # ps)" and b: "b \<in> set (p # ps)"
        and lt: "p_expiryDate a < p_expiryDate b" and tk: "taken (p_id b) > 0" for a b
    proof (cases "b = p")
      case True
      then have "a \<in> set ps" using a lt by auto
      then have "p_expiryDate p \<le> p_expiryDate a"
        using Cons.prems(5) by auto
      then show ?thesis using lt True by simp
    next
      case bp: False
      then have b_ps: "b \<in> set ps" using b by simp
      then have tb: "taken' (p_id b) > 0" using tk same by simp
      show ?thesis
      proof (cases "a = p")
        case True
        have "d = p_amount p"
        proof (rule ccontr)
          assume "d \<noteq> p_amount p"
          then have "rem - d = 0" by (auto simp: d_def min_def split: if_splits)
          then have "sum_list (map (\<lambda>p. taken' (p_id p)) ps) = 0"
            using total psum by (simp add: min_def)
          moreover have "\<forall>x\<in>set (map (\<lambda>p. taken' (p_id p)) ps). 0 \<le> x"
            using bounds by auto
          ultimately have "taken' (p_id b) = 0"
            using b_ps sum_list_nonneg_eq_0_iff [of "map (\<lambda>p. taken' (p_id p)) ps"]
            by auto
          then show False using tb by simp
        qed
        then show ?thesis using True by (simp add: taken_def)
      next
        case False
        then have "a \<in> set ps" using a by simp
        then show ?thesis
          using greedy b_ps lt tb same by auto
      qed
    qed
    show ?thesis
      using c1 c2 c3 c4 c5 by (intro exI [of _ taken]) blast
  qed
qed

lemma sum_list_insort_key:
  "sum_list (map h (insort_key f x xs)) = (h x :: rat) + sum_list (map h xs)"
  by (induction xs) simp_all

lemma sum_list_sort_key:
  "sum_list (map h (sort_key f xs)) = (sum_list (map h xs) :: rat)"
  by (induction xs) (simp_all add: sum_list_insort_key)

lemma distinct_map_sort_key:
  "distinct (map g (sort_key f xs)) = distinct (map g xs)"
  by (simp add: distinct_map)

lemma deductiblePoints_facts:
  assumes "distinct (map p_id rows)"
  shows "set (deductiblePoints env userId rows) = {p \<in> set rows. deductible env userId p}"
    and "distinct (map p_id (deductiblePoints env userId rows))"
    and "sorted (map p_expiryDate (deductiblePoints env userId rows))"
    and "sum_list (map h (deductiblePoints env userId rows))
         = (sum_list (map h (filter (deductible env userId) rows)) :: rat)"
  using assms
  by (auto simp: deductiblePoints_def distinct_map_sort_key distinct_map_filter
        sum_list_sort_key)

lemma deductPoints_spec:
  assumes ids: "distinct (map p_id (userPoint s))" and pos: "amount > 0"
  shows "(sum_list (map p_amount (filter (deductible env userId) (userPoint s))) < amount
            \<longrightarrow> deductPoints env s userId amount = Inl POINTS_ERROR)
       \<and> (amount \<le> sum_list (map p_amount (filter (deductible env userId) (userPoint s)))
            \<longrightarrow> (\<exists>taken.
                  deductPoints env s userId amount =
                    Inr (s\<lparr>userPoint :=
                           map (\<lambda>p. p\<lparr>p_amount := p_amount p - taken (p_id p)\<rparr>) (userPoint s)\<rparr>)
                \<and> (\<forall>p\<in>set (userPoint s).
                      if deductible env userId p
                      then 0 \<le> taken (p_id p) \<and> taken (p_id p) \<le> p_amount p
                      else taken (p_id p) = 0)
                \<and> sum_list (map (\<lambda>p. taken (p_id p)) (userPoint s)) = amount
                \<and> (\<forall>p\<in>set (userPoint s). \<forall>q\<in>set (userPoint s).
                      deductible env userId p \<and> deductible env userId q
                      \<and> p_expiryDate p < p_expiryDate q \<and> taken (p_id q) > 0
                      \<longrightarrow> taken (p_id p) = p_amount p)))"
proof -
  define rows where "rows = userPoint s"
  define pts where "pts = deductiblePoints env userId rows"
  define avail where "avail = sum_list (map p_amount (filter (deductible env userId) rows))"
  note f = deductiblePoints_facts [OF ids [folded rows_def], where env = env and userId = userId,
      folded pts_def]
  have set_pts: "set pts = {p \<in> set rows. deductible env userId p}" by (rule f(1))
  have "\<exists>taken.
           deductLoop rows pts amount =
             Inr (map (\<lambda>r. r\<lparr>p_amount := p_amount r - taken (p_id r)\<rparr>) rows,
                  amount - sum_list (map (\<lambda>p. taken (p_id p)) pts))
         \<and> (\<forall>i. i \<notin> p_id ` set pts \<longrightarrow> taken i = 0)
         \<and> (\<forall>p\<in>set pts. 0 \<le> taken (p_id p) \<and> taken (p_id p) \<le> p_amount p)
         \<and> sum_list (map (\<lambda>p. taken (p_id p)) pts) = min amount (sum_list (map p_amount pts))
         \<and> (\<forall>p\<in>set pts. \<forall>q\<in>set pts.
               p_expiryDate p < p_expiryDate q \<and> taken (p_id q) > 0
               \<longrightarrow> taken (p_id p) = p_amount p)"
  proof (rule deductLoop_spec)
    show "distinct (map p_id rows)" using ids by (simp add: rows_def)
    show "set pts \<subseteq> set rows" using set_pts by auto
    show "distinct (map p_id pts)" by (rule f(2))
    show "\<forall>p\<in>set pts. 0 < p_amount p" using set_pts by (auto simp: deductible_def)
    show "sorted (map p_expiryDate pts)" by (rule f(3))
    show "0 \<le> amount" using pos by simp
  qed
  then obtain taken where
    loop: "deductLoop rows pts amount =
             Inr (map (\<lambda>r. r\<lparr>p_amount := p_amount r - taken (p_id r)\<rparr>) rows,
                  amount - sum_list (map (\<lambda>p. taken (p_id p)) pts))" and
    zero: "\<forall>i. i \<notin> p_id ` set pts \<longrightarrow> taken i = 0" and
    bounds: "\<forall>p\<in>set pts. 0 \<le> taken (p_id p) \<and> taken (p_id p) \<le> p_amount p" and
    total: "sum_list (map (\<lambda>p. taken (p_id p)) pts) = min amount (sum_list (map p_amount pts))" and
    greedy: "\<forall>p\<in>set pts. \<forall>q\<in>set pts.
               p_expiryDate p < p_expiryDate q \<and> taken (p_id q) > 0
               \<longrightarrow> taken (p_id p) = p_amount p"
    by blast
  have avail: "sum_list (map p_amount pts) = avail"
    unfolding avail_def by (rule f(4))
  have other: "taken (p_id p) = 0" if "p \<in> set rows" "\<not> deductible env userId p" for p
  proof -
    have "p_id p \<notin> p_id ` set pts"
    proof
      assume "p_id p \<in> p_id ` set pts"
      then obtain q where q: "q \<in> set pts" "p_id q = p_id p" by auto
      then have "q \<in> set rows" "deductible env userId q" using set_pts by auto
      then have "q = p"
        using ids that(1) q(2) by (auto simp: rows_def distinct_map inj_on_def)
      then show False using that(2) \<open>deductible env userId q\<close> by simp
    qed
    then show ?thesis using zero by simp
  qed
  have all: "sum_list (map (\<lambda>p. taken (p_id p)) rows)
               = sum_list (map (\<lambda>p. taken (p_id p)) pts)"
    using f(4) [where h = "\<lambda>p. taken (p_id p)"] other
      sum_list_map_filter [of rows "deductible env userId" "\<lambda>p. taken (p_id p)"]
    by simp
  have dp: "deductPoints env s userId amount =
              (if amount - min amount avail > 0 then Inl POINTS_ERROR
               else Inr (s\<lparr>userPoint :=
                           map (\<lambda>p. p\<lparr>p_amount := p_amount p - taken (p_id p)\<rparr>) rows\<rparr>))"
    using pos loop total avail
    by (simp add: deductPoints_def rows_def [symmetric] pts_def [symmetric])
  show ?thesis
  proof (intro conjI impI)
    assume "sum_list (map p_amount (filter (deductible env userId) (userPoint s))) < amount"
    then show "deductPoints env s userId amount = Inl POINTS_ERROR"
      using dp by (simp add: avail_def rows_def min_def)
  next
    assume enough: "amount \<le> sum_list (map p_amount (filter (deductible env userId) (userPoint s)))"
    then have m: "min amount avail = amount"
      by (simp add: avail_def rows_def)
    have r1: "deductPoints env s userId amount =
                    Inr (s\<lparr>userPoint :=
                           map (\<lambda>p. p\<lparr>p_amount := p_amount p - taken (p_id p)\<rparr>) (userPoint s)\<rparr>)"
      using dp m by (simp add: rows_def)
    have r2: "\<forall>p\<in>set (userPoint s).
                      if deductible env userId p
                      then 0 \<le> taken (p_id p) \<and> taken (p_id p) \<le> p_amount p
                      else taken (p_id p) = 0"
      using bounds other set_pts by (auto simp: rows_def)
    have r3: "sum_list (map (\<lambda>p. taken (p_id p)) (userPoint s)) = amount"
      using all total avail m by (simp add: rows_def)
    have r4: "\<forall>p\<in>set (userPoint s). \<forall>q\<in>set (userPoint s).
                      deductible env userId p \<and> deductible env userId q
                      \<and> p_expiryDate p < p_expiryDate q \<and> taken (p_id q) > 0
                      \<longrightarrow> taken (p_id p) = p_amount p"
      using greedy set_pts by (auto simp: rows_def)
    show "\<exists>taken.
                  deductPoints env s userId amount =
                    Inr (s\<lparr>userPoint :=
                           map (\<lambda>p. p\<lparr>p_amount := p_amount p - taken (p_id p)\<rparr>) (userPoint s)\<rparr>)
                \<and> (\<forall>p\<in>set (userPoint s).
                      if deductible env userId p
                      then 0 \<le> taken (p_id p) \<and> taken (p_id p) \<le> p_amount p
                      else taken (p_id p) = 0)
                \<and> sum_list (map (\<lambda>p. taken (p_id p)) (userPoint s)) = amount
                \<and> (\<forall>p\<in>set (userPoint s). \<forall>q\<in>set (userPoint s).
                      deductible env userId p \<and> deductible env userId q
                      \<and> p_expiryDate p < p_expiryDate q \<and> taken (p_id q) > 0
                      \<longrightarrow> taken (p_id p) = p_amount p)"
      using r1 r2 r3 r4 by (intro exI [of _ taken]) blast
  qed
qed

section \<open>The sold counters\<close>

lemma find_id_iff: "(\<exists>x. find (\<lambda>t. f t = k) rows = Some x) \<longleftrightarrow> k \<in> f ` set rows"
  by (induction rows) auto

lemma find_id_None_iff: "find (\<lambda>t. f t = k) rows = None \<longleftrightarrow> k \<notin> f ` set rows"
  by (induction rows) auto

lemma updateTicketCounts_Inr:
  assumes "updateTicketCounts tts ups = Inr tts'"
  shows "tts' = map (\<lambda>t. t\<lparr>tt_soldQuantity := tt_soldQuantity t
                        + sum_list (map u_quantity (filter (\<lambda>u. u_id u = tt_id t) ups))\<rparr>) tts
       \<and> u_id ` set ups \<subseteq> tt_id ` set tts"
  using assms
proof (induction ups arbitrary: tts)
  case Nil
  have "map (\<lambda>t. t\<lparr>tt_soldQuantity := tt_soldQuantity t + 0\<rparr>) tts = tts"
    by (induction tts) simp_all
  then show ?case using Nil by simp
next
  case (Cons u us)
  define tts1 where "tts1 = map (\<lambda>x. if tt_id x = u_id u
       then x\<lparr>tt_soldQuantity := tt_soldQuantity x + u_quantity u\<rparr> else x) tts"
  from Cons.prems obtain x where
    x: "find (\<lambda>t. tt_id t = u_id u) tts = Some x" and
    rest: "updateTicketCounts tts1 us = Inr tts'"
    unfolding tts1_def
    by (auto simp: update_def split: option.splits if_splits)
  have "map tt_id tts1 = map tt_id tts"
    by (simp add: tts1_def comp_def if_distrib cong: if_cong)
  then have ids: "tt_id ` set tts1 = tt_id ` set tts"
    by (metis set_map)
  from Cons.IH [OF rest] have
    a: "tts' = map (\<lambda>t. t\<lparr>tt_soldQuantity := tt_soldQuantity t
                        + sum_list (map u_quantity (filter (\<lambda>u. u_id u = tt_id t) us))\<rparr>) tts1"
    and b: "u_id ` set us \<subseteq> tt_id ` set tts1"
    by simp_all
  have "u_id u \<in> tt_id ` set tts"
    using x find_id_iff [of tt_id "u_id u" tts] by blast
  then have sub: "u_id ` set (u # us) \<subseteq> tt_id ` set tts"
    using b ids by auto
  have "tts' = map (\<lambda>t. t\<lparr>tt_soldQuantity := tt_soldQuantity t
                        + sum_list (map u_quantity (filter (\<lambda>u. u_id u = tt_id t) (u # us)))\<rparr>) tts"
    unfolding a tts1_def by (simp add: add.assoc)
  then show ?case using sub by blast
qed

lemma releaseTickets_Inr_iff:
  "releaseTickets tts items = Inr tts' \<longleftrightarrow>
     (i_ticketTypeId ` set items \<subseteq> tt_id ` set tts
      \<and> tts' = map (\<lambda>t. t\<lparr>tt_soldQuantity := tt_soldQuantity t
                            - lineQuantity (tt_id t) items\<rparr>) tts)"
proof (induction items arbitrary: tts)
  case Nil
  have "map (\<lambda>t. t\<lparr>tt_soldQuantity := tt_soldQuantity t - 0\<rparr>) tts = tts"
    by (induction tts) simp_all
  then show ?case by (auto simp: lineQuantity_def)
next
  case (Cons i rest)
  define tts1 where "tts1 = map (\<lambda>x. if tt_id x = i_ticketTypeId i
       then x\<lparr>tt_soldQuantity := tt_soldQuantity x - i_quantity i\<rparr> else x) tts"
  have "map tt_id tts1 = map tt_id tts"
    by (simp add: tts1_def comp_def if_distrib cong: if_cong)
  then have ids: "tt_id ` set tts1 = tt_id ` set tts"
    by (metis set_map)
  have comp: "map (\<lambda>t. t\<lparr>tt_soldQuantity := tt_soldQuantity t - lineQuantity (tt_id t) rest\<rparr>) tts1
            = map (\<lambda>t. t\<lparr>tt_soldQuantity := tt_soldQuantity t
                            - lineQuantity (tt_id t) (i # rest)\<rparr>) tts"
    unfolding tts1_def by (simp add: lineQuantity_def algebra_simps)
  show ?case
  proof (cases "find (\<lambda>t. tt_id t = i_ticketTypeId i) tts")
    case None
    then have "i_ticketTypeId i \<notin> tt_id ` set tts"
      by (simp add: find_id_None_iff)
    then show ?thesis
      using None by (auto simp: update_def)
  next
    case (Some x)
    then have "i_ticketTypeId i \<in> tt_id ` set tts"
      using find_id_iff [of tt_id "i_ticketTypeId i" tts] by blast
    moreover have "releaseTickets tts (i # rest) = releaseTickets tts1 rest"
      using Some by (simp add: update_def tts1_def)
    ultimately show ?thesis
      using Cons.IH [of tts1] ids comp by auto
  qed
qed

lemma createItems_Inr:
  assumes "createItems ets lines = Inr items"
  shows "map i_ticketTypeId items = map ticketTypeId lines
       \<and> map i_quantity items = map quantity lines
       \<and> ticketTypeId ` set lines \<subseteq> tt_id ` set ets"
  using assms
proof (induction lines arbitrary: items)
  case Nil
  then show ?case by simp
next
  case (Cons l ls)
  from Cons.prems obtain tt rest where
    tt: "find (\<lambda>t. tt_id t = ticketTypeId l) ets = Some tt" and
    rest: "createItems ets ls = Inr rest" and
    items: "items = \<lparr>i_ticketTypeId = ticketTypeId l, i_quantity = quantity l,
                  i_pricePerTicket = tt_price tt,
                  i_subtotal = of_int (quantity l) * tt_price tt\<rparr> # rest"
    by (auto simp: andThen_Inr_iff split: option.splits)
  have "ticketTypeId l \<in> tt_id ` set ets"
    using tt find_id_iff [of tt_id "ticketTypeId l" ets] by blast
  then show ?case
    using Cons.IH [OF rest] items by simp
qed

lemma validateTickets_Inr:
  assumes "validateTickets ets lines totalAmount ups = Inr (totalAmount', ups')"
    and "ticketTypeId ` set lines \<subseteq> tt_id ` set ets"
  shows "\<exists>new. ups' = ups @ new
           \<and> map u_id new = map ticketTypeId lines
           \<and> map u_quantity new = map quantity lines
           \<and> (\<forall>u\<in>set new. 0 < u_quantity u
                 \<and> (\<exists>tt\<in>set ets. tt_id tt = u_id u \<and> u_maxQuantity u = tt_quantity tt))"
  using assms
proof (induction lines arbitrary: totalAmount ups)
  case Nil
  then show ?case by simp
next
  case (Cons l ls)
  from Cons.prems(2) obtain tt where
    tt: "find (\<lambda>t. tt_id t = ticketTypeId l) ets = Some tt"
    using find_id_iff [of tt_id "ticketTypeId l" ets] by auto
  define u where "u = \<lparr>u_id = tt_id tt, u_quantity = quantity l,
                      u_currentSold = tt_soldQuantity tt,
                      u_maxQuantity = tt_quantity tt,
                      u_price = tt_price tt\<rparr>"
  from Cons.prems(1) tt have q: "0 < quantity l" and
    rest: "validateTickets ets ls (totalAmount + of_int (quantity l) * tt_price tt) (ups @ [u])
             = Inr (totalAmount', ups')"
    by (auto simp: u_def split: if_splits)
  from Cons.IH [OF rest] Cons.prems(2) obtain new where
    new: "ups' = (ups @ [u]) @ new" "map u_id new = map ticketTypeId ls"
      "map u_quantity new = map quantity ls"
      "\<forall>u\<in>set new. 0 < u_quantity u
                 \<and> (\<exists>tt\<in>set ets. tt_id tt = u_id u \<and> u_maxQuantity u = tt_quantity tt)"
    by auto
  have "tt \<in> set ets" "tt_id tt = ticketTypeId l"
    using tt by (auto dest: find_Some_set)
  then show ?case
    using new q by (intro exI [of _ "u # new"]) (auto simp: u_def)
qed

lemma sum_list_filter_cong:
  assumes "map f xs = map f' ys" and "map g xs = map g' ys"
  shows "sum_list (map g (filter (\<lambda>x. f x = k) xs))
       = (sum_list (map g' (filter (\<lambda>y. f' y = k) ys)) :: int)"
  using assms
proof (induction xs arbitrary: ys)
  case Nil
  then show ?case by simp
next
  case (Cons x xs)
  then obtain y ys' where "ys = y # ys'" by (cases ys) auto
  then show ?case using Cons by auto
qed


section \<open>Writes of createTransaction and their reversal\<close>

lemma persistTransaction_Inr_iff:
  "persistTransaction env userId req ets totalAmount ticketUpdates pointsDiscount v c s
     = Inr (tr, s') \<longleftrightarrow>
   (\<exists>items tts evs vs cs.
      createItems ets (ticketTypes req) = Inr items
    \<and> tr = newTransaction env userId req totalAmount pointsDiscount v c items
    \<and> find (\<lambda>t. t_id t = uuid env) (transaction s) = None
    \<and> updateTicketCounts (eventTicketType s) ticketUpdates = Inr tts
    \<and> bookSeats (eventId req) (totalTicketsRequested (ticketTypes req)) (event s) = Inr evs
    \<and> redeemVoucher (snd v) (eventVoucher s) = Inr vs
    \<and> redeemCoupon (snd c) (userCoupon s) = Inr cs
    \<and> (if pointsDiscount > 0
        then deductPoints env
               (s\<lparr>transaction := transaction s @ [tr], eventTicketType := tts, event := evs,
                  eventVoucher := vs, userCoupon := cs\<rparr>) userId pointsDiscount
        else Inr (s\<lparr>transaction := transaction s @ [tr], eventTicketType := tts, event := evs,
                    eventVoucher := vs, userCoupon := cs\<rparr>)) = Inr s')"
proof -
  have row: "createTransactionRow row s = Inr s8 \<longleftrightarrow>
          (find (\<lambda>t. t_id t = t_id row) (transaction s) = None
           \<and> s8 = s\<lparr>transaction := transaction s @ [row]\<rparr>)" for row s8
    by (auto simp: createTransactionRow_def split: option.splits)
  have id: "t_id (newTransaction env userId req totalAmount pointsDiscount v c items) = uuid env"
    for items
    by (simp add: newTransaction_def)
  show ?thesis
    unfolding persistTransaction_def
    by (auto simp: andThen_Inr_iff row id)
qed




lemma latestPoint_Some:
  assumes "latestPoint rows userId = Some lot"
  shows "lot \<in> set rows \<and> p_userId lot = userId
       \<and> (\<forall>q\<in>set rows. p_userId q = userId \<longrightarrow> p_createdAt q \<le> p_createdAt lot)"
proof -
  define xs where "xs = filter (\<lambda>p. p_userId p = userId) rows"
  from assms obtain ys where s: "sort_key (\<lambda>p. - p_createdAt p) xs = lot # ys"
    by (auto simp: latestPoint_def xs_def split: list.splits)
  have "set (lot # ys) = set xs"
    using set_sort [of "\<lambda>p. - p_createdAt p" xs] by (simp add: s)
  moreover have "sorted (map (\<lambda>p. - p_createdAt p) (lot # ys))"
    using sorted_sort_key [of "\<lambda>p. - p_createdAt p" xs] by (simp add: s)
  ultimately have "lot \<in> set xs" "\<forall>q\<in>set xs. p_createdAt q \<le> p_createdAt lot"
    by auto
  then show ?thesis by (auto simp: xs_def)
qed

lemma latestPoint_None_iff:
  "latestPoint rows userId = None \<longleftrightarrow> (\<forall>q\<in>set rows. p_userId q \<noteq> userId)"
proof -
  define xs where "xs = filter (\<lambda>p. p_userId p = userId) rows"
  have "sort_key (\<lambda>p. - p_createdAt p) xs = [] \<longleftrightarrow> xs = []"
    by (metis length_sort length_0_conv)
  then have "latestPoint rows userId = None \<longleftrightarrow> xs = []"
    by (auto simp: latestPoint_def xs_def split: list.splits)
  then show ?thesis
    by (auto simp: xs_def filter_empty_conv)
qed





lemma deductPoints_frame:
  assumes "deductPoints env s userId amount = Inr s'"
  shows "\<exists>rows. s' = s\<lparr>userPoint := rows\<rparr>"
proof (cases "amount \<le> 0")
  case True
  then have "s' = s\<lparr>userPoint := userPoint s\<rparr>"
    using assms by (simp add: deductPoints_def)
  then show ?thesis by blast
next
  case False
  then show ?thesis
    using assms unfolding deductPoints_def
    by (auto split: if_splits sum.splits)
qed

lemma validatePoints_Inr:
  "validatePoints env s userId points totalAmount = Inr pd \<Longrightarrow> 0 \<le> pd"
  by (auto simp: validatePoints_def split: if_splits)




lemma createTransaction_row:
  assumes "createTransaction env s userId req = (Inr tr, s1)"
  shows "transaction s1 = transaction s @ [tr]
       \<and> find (\<lambda>t. t_id t = t_id tr) (transaction s) = None
       \<and> t_id tr = uuid env \<and> t_status tr = WAITING_FOR_PAYMENT \<and> t_userId tr = userId"
proof -
  from assms obtain ets totalAmount ups pd v c where
    p: "persistTransaction env userId req ets totalAmount ups pd v c s = Inr (tr, s1)"
    by (auto simp: createTransaction_Inr_iff createTransaction_tx_Inr_iff)
  from p obtain items tts evs vs cs where
    tr: "tr = newTransaction env userId req totalAmount pd v c items" and
    fresh: "find (\<lambda>t. t_id t = uuid env) (transaction s) = None" and
    dp: "(if pd > 0
        then deductPoints env
               (s\<lparr>transaction := transaction s @ [tr], eventTicketType := tts, event := evs,
                  eventVoucher := vs, userCoupon := cs\<rparr>) userId pd
        else Inr (s\<lparr>transaction := transaction s @ [tr], eventTicketType := tts, event := evs,
                    eventVoucher := vs, userCoupon := cs\<rparr>)) = Inr s1"
    unfolding persistTransaction_Inr_iff by blast
  define sA where "sA = s\<lparr>transaction := transaction s @ [tr], eventTicketType := tts,
                          event := evs, eventVoucher := vs, userCoupon := cs\<rparr>"
  have "\<exists>rows. s1 = sA\<lparr>userPoint := rows\<rparr>"
  proof (cases "pd > 0")
    case True
    then have "deductPoints env sA userId pd = Inr s1"
      using dp by (simp add: sA_def)
    then show ?thesis by (rule deductPoints_frame)
  next
    case False
    then have "s1 = sA" using dp by (simp add: sA_def)
    then have "s1 = sA\<lparr>userPoint := userPoint sA\<rparr>" by simp
    then show ?thesis by blast
  qed
  then have "transaction s1 = transaction s @ [tr]"
    by (auto simp: sA_def)
  then show ?thesis
    using fresh by (simp add: tr newTransaction_def)
qed

lemma upsertPayment_frame:
  "upsertPayment tid url s = (pay, s') \<Longrightarrow>
     transaction s' = transaction s \<and> eventTicketType s' = eventTicketType s
     \<and> event s' = event s \<and> eventVoucher s' = eventVoucher s
     \<and> userCoupon s' = userCoupon s \<and> userPoint s' = userPoint s"
  by (auto simp: upsertPayment_def Let_def split: option.splits)

lemma uploadPaymentProof_Inr:
  assumes "uploadPaymentProof env s tid userId file = (Inr pay, s')"
  shows "(\<exists>tr. find (\<lambda>t. t_id t = tid \<and> t_userId t = userId
                      \<and> t_status t = WAITING_FOR_PAYMENT) (transaction s) = Some tr)
       \<and> transaction s' = map (\<lambda>t. if t_id t = tid
                                     then t\<lparr>t_status := WAITING_FOR_CONFIRMATION\<rparr> else t)
                                (transaction s)
       \<and> eventTicketType s' = eventTicketType s \<and> event s' = event s
       \<and> eventVoucher s' = eventVoucher s \<and> userCoupon s' = userCoupon s
       \<and> userPoint s' = userPoint s"
proof -
  from assms have tx: "uploadPaymentProof_tx env tid userId file s = Inr (pay, s')"
    by (simp add: uploadPaymentProof_def prisma_transaction_Inr)
  then obtain tr where tr: "find (\<lambda>t. t_id t = tid \<and> t_userId t = userId
                      \<and> t_status t = WAITING_FOR_PAYMENT) (transaction s) = Some tr"
    unfolding uploadPaymentProof_tx_def by (auto split: option.splits)
  have late: "\<not> now env > t_expiryTime tr"
  proof
    assume "now env > t_expiryTime tr"
    then have "uploadPaymentProof_tx env tid userId file s
                 = andThen (expireTransaction env s tid) (\<lambda>_. Inl TRANSACTION_EXPIRED)"
      using tr by (simp add: uploadPaymentProof_tx_def)
    then show False
      using tx by (cases "expireTransaction env s tid") simp_all
  qed
  from tx tr late obtain url where url: "file = Some url"
    unfolding uploadPaymentProof_tx_def by (cases "file") auto
  obtain pay1 s1 where up: "upsertPayment tid url s = (pay1, s1)"
    by (cases "upsertPayment tid url s")
  from tx tr late url up obtain x where "setStatus tid WAITING_FOR_CONFIRMATION s1 = Inr (x, s')"
    unfolding uploadPaymentProof_tx_def by (auto simp: andThen_Inr_iff)
  then have "s' = s1\<lparr>transaction := map (\<lambda>t. if t_id t = tid
                       then t\<lparr>t_status := WAITING_FOR_CONFIRMATION\<rparr> else t) (transaction s1)\<rparr>"
    by (auto simp: setStatus_Inr_iff)
  then show ?thesis
    using tr upsertPayment_frame [OF up] by auto
qed

lemma confirmTransaction_Inr:
  assumes "confirmTransaction env s tid org acc = (Inr tr', s')"
  shows "\<exists>tr0 s1. find (\<lambda>t. t_id t = tid \<and> organizedBy s org t
                      \<and> t_status t = WAITING_FOR_CONFIRMATION) (transaction s) = Some tr0
           \<and> (if acc then eventTicketType s1 = eventTicketType s \<and> transaction s1 = transaction s
               else rollbackTransaction env s tid = Inr s1)
           \<and> setStatus tid (if acc then DONE else REJECTED) s1 = Inr (tr', s')"
proof -
  from assms have tx: "confirmTransaction_tx env tid org acc s = Inr (tr', s')"
    by (simp add: confirmTransaction_def prisma_transaction_Inr)
  then obtain tr0 where tr0: "find (\<lambda>t. t_id t = tid \<and> organizedBy s org t
                      \<and> t_status t = WAITING_FOR_CONFIRMATION) (transaction s) = Some tr0"
    unfolding confirmTransaction_tx_def by (auto split: option.splits)
  show ?thesis
  proof (cases acc)
    case True
    with tx tr0 obtain s1 where
      a: "createAttendee \<lparr>a_eventId = t_eventId tr0, a_userId = t_userId tr0,
            a_transactionId = tid,
            a_ticketCount = foldl (\<lambda>sum item. sum + i_quantity item) 0 (t_items tr0),
            a_totalPaid = t_finalAmount tr0\<rparr> s = Inr s1" and
      st: "setStatus tid DONE s1 = Inr (tr', s')"
      unfolding confirmTransaction_tx_def by (auto simp: andThen_Inr_iff Let_def)
    from a have "eventTicketType s1 = eventTicketType s \<and> transaction s1 = transaction s"
      by (auto simp: createAttendee_def split: option.splits)
    then show ?thesis using tr0 st True by auto
  next
    case False
    with tx tr0 obtain s1 where
      "rollbackTransaction env s tid = Inr s1" "setStatus tid REJECTED s1 = Inr (tr', s')"
      unfolding confirmTransaction_tx_def by (auto simp: andThen_Inr_iff Let_def)
    then show ?thesis using tr0 False by auto
  qed
qed



section \<open>Tickets held and tickets sold\<close>

lemma lineQuantity_nonneg:
  "\<forall>i\<in>set items. 0 \<le> i_quantity i \<Longrightarrow> 0 \<le> lineQuantity k items"
  unfolding lineQuantity_def by (intro sum_list_nonneg) auto

lemma held_nonneg:
  assumes "\<forall>t\<in>set (transaction s). \<forall>i\<in>set (t_items t). 0 \<le> i_quantity i"
  shows "0 \<le> held s k"
  unfolding held_def using assms
  by (intro sum_list_nonneg) (auto intro: lineQuantity_nonneg)

lemma holding_status [simp]:
  "holding (t\<lparr>t_status := st\<rparr>)
     = (st = WAITING_FOR_PAYMENT \<or> st = WAITING_FOR_CONFIRMATION \<or> st = DONE)"
  by (simp add: holding_def)

lemma held_status_kept:
  assumes "\<forall>t\<in>set rows. t_id t = tid \<longrightarrow> holding t"
    and "st = WAITING_FOR_PAYMENT \<or> st = WAITING_FOR_CONFIRMATION \<or> st = DONE"
  shows "sum_list (map (\<lambda>t. lineQuantity k (t_items t))
           (filter holding (map (\<lambda>t. if t_id t = tid then t\<lparr>t_status := st\<rparr> else t) rows)))
       = sum_list (map (\<lambda>t. lineQuantity k (t_items t)) (filter holding rows))"
  using assms by (induction rows) auto

lemma held_status_removed:
  assumes "distinct (map t_id rows)" and "tr \<in> set rows" and "holding tr"
    and "st \<noteq> WAITING_FOR_PAYMENT" and "st \<noteq> WAITING_FOR_CONFIRMATION" and "st \<noteq> DONE"
  shows "sum_list (map (\<lambda>t. lineQuantity k (t_items t))
           (filter holding (map (\<lambda>t. if t_id t = t_id tr then t\<lparr>t_status := st\<rparr> else t) rows)))
       = sum_list (map (\<lambda>t. lineQuantity k (t_items t)) (filter holding rows))
         - lineQuantity k (t_items tr)"
  using assms
proof (induction rows)
  case Nil
  then show ?case by simp
next
  case (Cons r rows)
  show ?case
  proof (cases "r = tr")
    case True
    then have "t_id tr \<notin> t_id ` set rows" using Cons.prems(1) by auto
    then have "map (\<lambda>t. if t_id t = t_id tr then t\<lparr>t_status := st\<rparr> else t) rows = rows"
      by (induction rows) auto
    then show ?thesis using True Cons.prems by simp
  next
    case False
    then have in_rows: "tr \<in> set rows" using Cons.prems(2) by simp
    then have "t_id r \<noteq> t_id tr" using Cons.prems(1) by (auto simp: image_iff)
    then show ?thesis using Cons in_rows by simp
  qed
qed

lemma updateTicketCounts_bounded:
  assumes "updateTicketCounts tts ups = Inr tts'"
    and "distinct (map tt_id tts)"
    and "\<forall>u\<in>set ups. \<forall>t\<in>set tts. tt_id t = u_id u \<longrightarrow> u_maxQuantity u = tt_quantity t"
    and "\<forall>t\<in>set tts. tt_soldQuantity t \<le> tt_quantity t"
  shows "\<forall>t\<in>set tts'. tt_soldQuantity t \<le> tt_quantity t"
  using assms
proof (induction ups arbitrary: tts)
  case Nil
  then show ?case by simp
next
  case (Cons u us)
  define tts1 where "tts1 = map (\<lambda>x. if tt_id x = u_id u
       then x\<lparr>tt_soldQuantity := tt_soldQuantity x + u_quantity u\<rparr> else x) tts"
  from Cons.prems(1) obtain x where
    x: "find (\<lambda>t. tt_id t = u_id u) tts = Some x" and
    ok: "tt_soldQuantity x + u_quantity u \<le> u_maxQuantity u" and
    rest: "updateTicketCounts tts1 us = Inr tts'"
    unfolding tts1_def
    by (auto simp: update_def not_less split: option.splits if_splits)
  have x_in: "x \<in> set tts" "tt_id x = u_id u"
    using x by (auto dest: find_Some_set)
  have only: "t = x" if "t \<in> set tts" "tt_id t = u_id u" for t
    using that x_in Cons.prems(2) by (auto simp: distinct_map inj_on_def)
  have maxq: "u_maxQuantity u = tt_quantity x"
    using Cons.prems(3) x_in by simp
  have ids: "map tt_id tts1 = map tt_id tts"
    by (simp add: tts1_def comp_def if_distrib cong: if_cong)
  have b1: "\<forall>t\<in>set tts1. tt_soldQuantity t \<le> tt_quantity t"
    using Cons.prems(4) only ok maxq by (auto simp: tts1_def)
  have b2: "\<forall>u\<in>set us. \<forall>t\<in>set tts1. tt_id t = u_id u \<longrightarrow> u_maxQuantity u = tt_quantity t"
    using Cons.prems(3) by (auto simp: tts1_def split: if_splits)
  show ?case
    using Cons.IH [OF rest _ b2 b1] ids Cons.prems(2) by simp
qed

lemma distinct_id_eq:
  "distinct (map f xs) \<Longrightarrow> x \<in> set xs \<Longrightarrow> y \<in> set xs \<Longrightarrow> f x = f y \<Longrightarrow> x = y"
  by (auto simp: distinct_map inj_on_def)

lemma ledgerInvariant_create:
  assumes inv: "ledgerInvariant s"
    and create: "createTransaction env s userId req = (Inr tr, s1)"
  shows "ledgerInvariant s1"
proof -
  from create obtain ev ets totalAmount ups pd v c where
    fe: "findBookableEvent env s req = Some (ev, ets)" and
    vt: "validateTickets ets (ticketTypes req) 0 [] = Inr (totalAmount, ups)" and
    p: "persistTransaction env userId req ets totalAmount ups pd v c s = Inr (tr, s1)"
    by (auto simp: createTransaction_Inr_iff createTransaction_tx_Inr_iff)
  from p obtain items tts evs vs cs where
    ci: "createItems ets (ticketTypes req) = Inr items" and
    tr: "tr = newTransaction env userId req totalAmount pd v c items" and
    ut: "updateTicketCounts (eventTicketType s) ups = Inr tts" and
    dp: "(if pd > 0
        then deductPoints env
               (s\<lparr>transaction := transaction s @ [tr], eventTicketType := tts, event := evs,
                  eventVoucher := vs, userCoupon := cs\<rparr>) userId pd
        else Inr (s\<lparr>transaction := transaction s @ [tr], eventTicketType := tts, event := evs,
                    eventVoucher := vs, userCoupon := cs\<rparr>)) = Inr s1"
    unfolding persistTransaction_Inr_iff by blast
  define sA where "sA = s\<lparr>transaction := transaction s @ [tr], eventTicketType := tts,
                          event := evs, eventVoucher := vs, userCoupon := cs\<rparr>"
  have "\<exists>rows. s1 = sA\<lparr>userPoint := rows\<rparr>"
  proof (cases "pd > 0")
    case True
    then have "deductPoints env sA userId pd = Inr s1"
      using dp by (simp add: sA_def)
    then show ?thesis by (rule deductPoints_frame)
  next
    case False
    then have "s1 = sA" using dp by (simp add: sA_def)
    then have "s1 = sA\<lparr>userPoint := userPoint sA\<rparr>" by simp
    then show ?thesis by blast
  qed
  then have tabs: "transaction s1 = transaction s @ [tr]" "eventTicketType s1 = tts"
    by (auto simp: sA_def)
  note row = createTransaction_row [OF create]
  note ci' = createItems_Inr [OF ci]
  from validateTickets_Inr [OF vt] ci' have
    ups: "map u_id ups = map ticketTypeId (ticketTypes req)"
      "map u_quantity ups = map quantity (ticketTypes req)" and
    upq: "\<forall>u\<in>set ups. 0 < u_quantity u
            \<and> (\<exists>tt\<in>set ets. tt_id tt = u_id u \<and> u_maxQuantity u = tt_quantity tt)"
    by auto
  have items: "t_items tr = items"
    by (simp add: tr newTransaction_def)
  have S: "sum_list (map u_quantity (filter (\<lambda>u. u_id u = k) ups)) = lineQuantity k items" for k
    unfolding lineQuantity_def using sum_list_filter_cong [of u_id ups i_ticketTypeId items] ups ci'
    by simp
  from updateTicketCounts_Inr [OF ut] have
    tts: "tts = map (\<lambda>t. t\<lparr>tt_soldQuantity := tt_soldQuantity t
                        + lineQuantity (tt_id t) items\<rparr>) (eventTicketType s)"
    by (simp add: S)
  have d0: "distinct (map tt_id (eventTicketType s))" and
    dt: "distinct (map t_id (transaction s))" and
    q0: "\<forall>t\<in>set (transaction s). \<forall>i\<in>set (t_items t). 0 \<le> i_quantity i" and
    b0: "\<forall>tt\<in>set (eventTicketType s).
            held s (tt_id tt) \<le> tt_soldQuantity tt \<and> tt_soldQuantity tt \<le> tt_quantity tt"
    using inv by (simp_all add: ledgerInvariant_def)
  have i1: "distinct (map tt_id (eventTicketType s1))"
    using d0 by (simp add: tabs tts comp_def)
  have "t_id tr \<notin> t_id ` set (transaction s)"
    using row find_id_None_iff [of t_id "t_id tr" "transaction s"] by blast
  then have i2: "distinct (map t_id (transaction s1))"
    using dt by (simp add: tabs)
  have "\<forall>i\<in>set items. 0 < i_quantity i"
  proof
    fix i assume "i \<in> set items"
    then have "i_quantity i \<in> set (map i_quantity items)" by simp
    also have "map i_quantity items = map u_quantity ups" using ups ci' by simp
    finally obtain u where "u \<in> set ups" "u_quantity u = i_quantity i" by auto
    then show "0 < i_quantity i" using upq by auto
  qed
  then have i3: "\<forall>t\<in>set (transaction s1). \<forall>i\<in>set (t_items t). 0 \<le> i_quantity i"
    using q0 items by (auto simp: tabs intro: less_imp_le)
  have h1: "held s1 k = held s k + lineQuantity k items" for k
    using row items by (simp add: held_def tabs holding_def)
  have "ets = filter (\<lambda>t. tt_eventId t = e_id ev
                                \<and> tt_id t \<in> set (map ticketTypeId (ticketTypes req)))
                           (eventTicketType s)"
    using fe by (auto simp: findBookableEvent_def split: option.splits)
  then have sub: "set ets \<subseteq> set (eventTicketType s)"
    by auto
  have mq: "\<forall>u\<in>set ups. \<forall>t\<in>set (eventTicketType s).
              tt_id t = u_id u \<longrightarrow> u_maxQuantity u = tt_quantity t"
  proof (intro ballI impI)
    fix u t assume u: "u \<in> set ups" and t: "t \<in> set (eventTicketType s)" "tt_id t = u_id u"
    from upq u obtain tt where tt: "tt \<in> set ets" "tt_id tt = u_id u"
      "u_maxQuantity u = tt_quantity tt" by blast
    then have "tt \<in> set (eventTicketType s)" "tt_id tt = tt_id t"
      using sub t by auto
    then have "tt = t"
      using distinct_id_eq [OF d0 _ t(1)] by blast
    then show "u_maxQuantity u = tt_quantity t" using tt by simp
  qed
  have upper: "\<forall>t\<in>set tts. tt_soldQuantity t \<le> tt_quantity t"
    using updateTicketCounts_bounded [OF ut d0 mq] b0 by blast
  have i4: "\<forall>tt\<in>set (eventTicketType s1).
            held s1 (tt_id tt) \<le> tt_soldQuantity tt \<and> tt_soldQuantity tt \<le> tt_quantity tt"
  proof
    fix tt assume a: "tt \<in> set (eventTicketType s1)"
    then obtain t0 where t0: "t0 \<in> set (eventTicketType s)"
      "tt = t0\<lparr>tt_soldQuantity := tt_soldQuantity t0 + lineQuantity (tt_id t0) items\<rparr>"
      unfolding tabs tts by auto
    have "held s1 (tt_id tt) \<le> tt_soldQuantity tt"
      using b0 t0 by (simp add: h1)
    moreover have "tt_soldQuantity tt \<le> tt_quantity tt"
      using upper a by (simp add: tabs)
    ultimately show "held s1 (tt_id tt) \<le> tt_soldQuantity tt \<and> tt_soldQuantity tt \<le> tt_quantity tt"
      by simp
  qed
  show ?thesis
    using i1 i2 i3 i4 by (simp add: ledgerInvariant_def)
qed

lemma map_status_frame:
  "map t_id (map (\<lambda>t. if t_id t = tid then t\<lparr>t_status := st\<rparr> else t) rows) = map t_id rows"
  "\<forall>t\<in>set rows. \<forall>i\<in>set (t_items t). 0 \<le> i_quantity i \<Longrightarrow>
   \<forall>t\<in>set (map (\<lambda>t. if t_id t = tid then t\<lparr>t_status := st\<rparr> else t) rows).
      \<forall>i\<in>set (t_items t). 0 \<le> i_quantity i"
  by (induction rows) auto

lemma restorePoints_tickets:
  "restorePoints env s uid amount = Inr s' \<Longrightarrow> eventTicketType s' = eventTicketType s"
  unfolding restorePoints_def
  by (auto simp: andThen_Inr_iff split: if_splits option.splits)

lemma ledgerInvariant_upload:
  assumes inv: "ledgerInvariant s"
    and upload: "uploadPaymentProof env s tid userId file = (Inr pay, s')"
  shows "ledgerInvariant s'"
proof -
  note u = uploadPaymentProof_Inr [OF upload]
  then obtain tr where tr: "find (\<lambda>t. t_id t = tid \<and> t_userId t = userId
                      \<and> t_status t = WAITING_FOR_PAYMENT) (transaction s) = Some tr"
    by blast
  have tabs: "transaction s' = map (\<lambda>t. if t_id t = tid
                     then t\<lparr>t_status := WAITING_FOR_CONFIRMATION\<rparr> else t) (transaction s)"
    "eventTicketType s' = eventTicketType s"
    using u by simp_all
  have dt: "distinct (map t_id (transaction s))"
    using inv by (simp add: ledgerInvariant_def)
  have tr_in: "tr \<in> set (transaction s)" "t_id tr = tid" "t_status tr = WAITING_FOR_PAYMENT"
    using tr by (auto dest: find_Some_set)
  have "\<forall>t\<in>set (transaction s). t_id t = tid \<longrightarrow> holding t"
  proof (intro ballI impI)
    fix t assume "t \<in> set (transaction s)" "t_id t = tid"
    then have "t = tr"
      using distinct_id_eq [OF dt _ tr_in(1), of t] tr_in(2) by simp
    then show "holding t" using tr_in(3) by (simp add: holding_def)
  qed
  then have "held s' k = held s k" for k
    unfolding held_def tabs by (intro held_status_kept) simp_all
  moreover have "distinct (map t_id (transaction s'))"
    unfolding tabs map_status_frame(1) by (rule dt)
  moreover have "\<forall>t\<in>set (transaction s'). \<forall>i\<in>set (t_items t). 0 \<le> i_quantity i"
    unfolding tabs using inv by (intro map_status_frame(2)) (simp add: ledgerInvariant_def)
  ultimately show ?thesis
    using inv by (simp add: ledgerInvariant_def tabs(2))
qed

lemma ledgerInvariant_confirm:
  assumes inv: "ledgerInvariant s"
    and confirm: "confirmTransaction env s tid org acc = (Inr tr', s')"
  shows "ledgerInvariant s'"
proof -
  from confirmTransaction_Inr [OF confirm] obtain tr0 s1 where
    tr0: "find (\<lambda>t. t_id t = tid \<and> organizedBy s org t
                      \<and> t_status t = WAITING_FOR_CONFIRMATION) (transaction s) = Some tr0" and
    mid: "if acc then eventTicketType s1 = eventTicketType s \<and> transaction s1 = transaction s
               else rollbackTransaction env s tid = Inr s1" and
    st: "setStatus tid (if acc then DONE else REJECTED) s1 = Inr (tr', s')"
    by blast
  have d0: "distinct (map tt_id (eventTicketType s))" and
    dt: "distinct (map t_id (transaction s))" and
    q0: "\<forall>t\<in>set (transaction s). \<forall>i\<in>set (t_items t). 0 \<le> i_quantity i" and
    b0: "\<forall>tt\<in>set (eventTicketType s).
            held s (tt_id tt) \<le> tt_soldQuantity tt \<and> tt_soldQuantity tt \<le> tt_quantity tt"
    using inv by (simp_all add: ledgerInvariant_def)
  have tr_in: "tr0 \<in> set (transaction s)" "t_id tr0 = tid"
    "t_status tr0 = WAITING_FOR_CONFIRMATION"
    using tr0 by (auto dest: find_Some_set)
  have s': "s' = s1\<lparr>transaction := map (\<lambda>t. if t_id t = tid
                 then t\<lparr>t_status := (if acc then DONE else REJECTED)\<rparr> else t) (transaction s1)\<rparr>"
    using st by (auto simp: setStatus_Inr_iff)
  have tr1: "transaction s1 = transaction s"
    using mid rollbackTransaction_transaction by (cases acc) auto
  have tabs: "transaction s' = map (\<lambda>t. if t_id t = tid
                 then t\<lparr>t_status := (if acc then DONE else REJECTED)\<rparr> else t) (transaction s)"
    "eventTicketType s' = eventTicketType s1"
    using tr1 by (simp_all add: s')
  have i2: "distinct (map t_id (transaction s'))"
    unfolding tabs map_status_frame(1) by (rule dt)
  have i3: "\<forall>t\<in>set (transaction s'). \<forall>i\<in>set (t_items t). 0 \<le> i_quantity i"
    unfolding tabs using q0 by (rule map_status_frame(2))
  show ?thesis
  proof (cases acc)
    case True
    have tt: "eventTicketType s' = eventTicketType s"
      using mid True tabs by simp
    have "\<forall>t\<in>set (transaction s). t_id t = tid \<longrightarrow> holding t"
    proof (intro ballI impI)
      fix t assume "t \<in> set (transaction s)" "t_id t = tid"
      then have "t = tr0"
        using distinct_id_eq [OF dt _ tr_in(1), of t] tr_in(2) by simp
      then show "holding t" using tr_in(3) by (simp add: holding_def)
    qed
    then have "held s' k = held s k" for k
      unfolding held_def tabs using True by (intro held_status_kept) simp_all
    then have "\<forall>tt\<in>set (eventTicketType s').
            held s' (tt_id tt) \<le> tt_soldQuantity tt \<and> tt_soldQuantity tt \<le> tt_quantity tt"
      using b0 unfolding tt by simp
    then show ?thesis
      using i2 i3 d0 by (simp add: ledgerInvariant_def tt)
  next
    case False
    then have rb: "rollbackTransaction env s tid = Inr s1"
      using mid by simp
    have fnd: "find (\<lambda>t. t_id t = tid) (transaction s) = Some tr0"
      using find_distinct_id [OF dt tr_in(1)] tr_in(2) by simp
    from rb fnd have "releaseTickets (eventTicketType s) (t_items tr0) = Inr (eventTicketType s1)"
      unfolding rollbackTransaction_Inr_iff
      by (auto simp: rollbackPoints_def dest!: restorePoints_tickets split: if_splits)
    then have tts: "eventTicketType s' =
        map (\<lambda>t. t\<lparr>tt_soldQuantity := tt_soldQuantity t - lineQuantity (tt_id t) (t_items tr0)\<rparr>)
          (eventTicketType s)"
      by (simp add: releaseTickets_Inr_iff tabs)
    have h: "held s' k = held s k - lineQuantity k (t_items tr0)" for k
      unfolding held_def tabs using False tr_in
      held_status_removed [OF dt tr_in(1), of REJECTED k]
      by (simp add: holding_def)
    have lq: "0 \<le> lineQuantity k (t_items tr0)" for k
      using q0 tr_in(1) by (intro lineQuantity_nonneg) simp
    have i1: "distinct (map tt_id (eventTicketType s'))"
      using d0 by (simp add: tts comp_def)
    have i4: "\<forall>tt\<in>set (eventTicketType s').
            held s' (tt_id tt) \<le> tt_soldQuantity tt \<and> tt_soldQuantity tt \<le> tt_quantity tt"
    proof
      fix tt assume "tt \<in> set (eventTicketType s')"
      then obtain t0 where t0: "t0 \<in> set (eventTicketType s)"
        "tt = t0\<lparr>tt_soldQuantity := tt_soldQuantity t0 - lineQuantity (tt_id t0) (t_items tr0)\<rparr>"
        unfolding tts by auto
      show "held s' (tt_id tt) \<le> tt_soldQuantity tt \<and> tt_soldQuantity tt \<le> tt_quantity tt"
        using b0 t0 lq [of "tt_id t0"] by (auto simp: h)
    qed
    show ?thesis
      using i1 i2 i3 i4 by (simp add: ledgerInvariant_def)
  qed
qed

lemma ledgerInvariant_perform:
  assumes "ledgerInvariant s"
  shows "ledgerInvariant (perform s c)"
proof (cases c)
  case (CreateTransaction env userId req)
  obtain r s' where r: "createTransaction env s userId req = (r, s')"
    by (cases "createTransaction env s userId req")
  show ?thesis
  proof (cases r)
    case (Inl e)
    then show ?thesis
      using r assms createTransaction_Inl [of env s userId req e s'] CreateTransaction by simp
  next
    case (Inr tr)
    then show ?thesis
      using r assms ledgerInvariant_create [of s env userId req tr s'] CreateTransaction by simp
  qed
next
  case (UploadPaymentProof env tid userId url)
  obtain r s' where r: "uploadPaymentProof env s tid userId url = (r, s')"
    by (cases "uploadPaymentProof env s tid userId url")
  show ?thesis
  proof (cases r)
    case (Inl e)
    then show ?thesis
      using r assms uploadPaymentProof_Inl [of env s tid userId url e s'] UploadPaymentProof
      by simp
  next
    case (Inr pay)
    then show ?thesis
      using r assms ledgerInvariant_upload [of s env tid userId url pay s'] UploadPaymentProof
      by simp
  qed
next
  case (ConfirmTransaction env tid org acc)
  obtain r s' where r: "confirmTransaction env s tid org acc = (r, s')"
    by (cases "confirmTransaction env s tid org acc")
  show ?thesis
  proof (cases r)
    case (Inl e)
    then show ?thesis
      using r assms confirmTransaction_Inl [of env s tid org acc e s'] ConfirmTransaction
      by simp
  next
    case (Inr tr)
    then show ?thesis
      using r assms ledgerInvariant_confirm [of s env tid org acc tr s'] ConfirmTransaction
      by simp
  qed
qed

lemma reachable_ledgerInvariant:
  assumes "reachable s"
  shows "ledgerInvariant s"
  using assms
proof (induction rule: reachable.induct)
  case (start s)
  then have "held s k = 0" for k
    by (simp add: held_def)
  then show ?case
    using start by (simp add: ledgerInvariant_def list_all_iff withinCapacity_def)
next
  case (step s c)
  then show ?case by (simp add: ledgerInvariant_perform)
qed

section \<open>No overselling\<close>

text \<open>
  Claim C1. In every state the engine can commit, starting from a database without
  bookings whose sold counters are within capacity and running any sequence of
  \<open>createTransaction\<close>, \<open>uploadPaymentProof\<close> (with its expiry path) and
  \<open>confirmTransaction\<close> calls, every ticket type has
  \<open>0 \<le> held \<le> soldQuantity \<le> quantity\<close>, where \<open>held\<close> counts the tickets of that type in
  the bookings whose reservation stands (waiting for payment, waiting for confirmation
  or confirmed): the sold counter is never negative and never above the capacity, and
  neither are the reservations.
\<close>

theorem sold_within_capacity:
  assumes "reachable s" and "tt \<in> set (eventTicketType s)"
  shows "0 \<le> tt_soldQuantity tt \<and> tt_soldQuantity tt \<le> tt_quantity tt
       \<and> 0 \<le> held s (tt_id tt) \<and> held s (tt_id tt) \<le> tt_soldQuantity tt"
proof -
  have inv: "ledgerInvariant s"
    using assms(1) by (rule reachable_ledgerInvariant)
  then have "0 \<le> held s (tt_id tt)"
    by (intro held_nonneg) (simp add: ledgerInvariant_def)
  moreover have "held s (tt_id tt) \<le> tt_soldQuantity tt \<and> tt_soldQuantity tt \<le> tt_quantity tt"
    using inv assms(2) by (simp add: ledgerInvariant_def)
  ultimately show ?thesis by simp
qed

text \<open>
  The worked booking holds two of the five tickets. A request with two lines of three
  tickets of the same type passes the check of each line against the five tickets left
  and is stopped by the check after the second increment; nothing is written.
\<close>

theorem sold_within_capacity_witness:
  "reachable booked
   \<and> eventTicketType booked
       = [\<lparr>tt_id = ''t1'', tt_eventId = ''e1'', tt_price = 100, tt_quantity = 5,
           tt_soldQuantity = 2\<rparr>]
   \<and> held booked ''t1'' = 2
   \<and> createTransaction (clock 10 ''x1'') shop ''u1''
        (plainOrder\<lparr>ticketTypes := [\<lparr>ticketTypeId = ''t1'', quantity = 3\<rparr>,
                                     \<lparr>ticketTypeId = ''t1'', quantity = 3\<rparr>]\<rparr>)
       = (Inl TICKET_QUANTITY_EXCEEDED, shop)"
proof -
  have "transaction shop = []" "distinct (map tt_id (eventTicketType shop))"
    "list_all withinCapacity (eventTicketType shop)"
    by code_simp+
  then have "reachable shop"
    by (rule reachable.start)
  then have "reachable (perform shop (CreateTransaction (clock 10 ''x1'') ''u1'' order))"
    by (rule reachable.step)
  then have r: "reachable booked"
    by (simp add: booked_def)
  have tts: "eventTicketType booked
       = [\<lparr>tt_id = ''t1'', tt_eventId = ''e1'', tt_price = 100, tt_quantity = 5,
           tt_soldQuantity = 2\<rparr>]"
    by code_simp
  then have m: "\<lparr>tt_id = ''t1'', tt_eventId = ''e1'', tt_price = 100, tt_quantity = 5,
           tt_soldQuantity = 2\<rparr> \<in> set (eventTicketType booked)"
    by simp
  have h: "held booked ''t1'' = 2"
    by code_simp
  have twice: "createTransaction (clock 10 ''x1'') shop ''u1''
        (plainOrder\<lparr>ticketTypes := [\<lparr>ticketTypeId = ''t1'', quantity = 3\<rparr>,
                                     \<lparr>ticketTypeId = ''t1'', quantity = 3\<rparr>]\<rparr>)
       = (Inl TICKET_QUANTITY_EXCEEDED, shop)"
    by code_simp
  show ?thesis
    using r tts h twice sold_within_capacity [OF r m] by simp
qed

section \<open>Rollback after a booking\<close>




section \<open>A payment proof after the deadline\<close>

text \<open>
  Claim C3 says that a payment proof submitted after the deadline fails with the
  expired-booking error and leaves the booking \<open>EXPIRED\<close> with its hold released. In the
  code the error is thrown inside the callback of \<open>prisma.$transaction\<close>, after
  \<open>expireTransaction\<close> has run on the same transaction client, so the status change and
  the rollback are undone with it. At the worked booking, one millisecond after its
  deadline: the call fails with \<open>TRANSACTION_EXPIRED\<close> and the database is the one before
  the call, with the booking still \<open>WAITING_FOR_PAYMENT\<close> and its two tickets and two seats
  still held, although \<open>expireTransaction\<close> on that database gives the status \<open>EXPIRED\<close>
  and releases the tickets.
\<close>

theorem uploadPaymentProof_expired_keeps_hold:
  "uploadPaymentProof (clock 7200011 ''x2'') booked ''x1'' ''u1'' (Some ''proof.png'')
     = (Inl TRANSACTION_EXPIRED, booked)
   \<and> map t_expiryTime (transaction booked) = [7200010]
   \<and> map t_status (transaction booked) = [WAITING_FOR_PAYMENT]
   \<and> map tt_soldQuantity (eventTicketType booked) = [2]
   \<and> map e_bookedSeats (event booked) = [2]
   \<and> map_sum id (\<lambda>s. (map t_status (transaction s), map tt_soldQuantity (eventTicketType s)))
        (expireTransaction (clock 7200011 ''x2'') booked ''x1'') = Inr ([EXPIRED], [0])"
  by code_simp

section \<open>Discount codes in createTransaction\<close>



section \<open>The discount calculator\<close>

text \<open>
  Claim C5, as amended. For a non-negative base amount, a non-negative discount value and a
  cap that is absent or positive, \<open>calculateDiscount\<close> returns, for a percentage rule,
  \<open>amount * value / 100\<close> clamped to the cap when a cap is present and then clamped to the
  amount; for a fixed rule, the smaller of the value and the amount; and in both cases a
  result between 0 and the amount. A cap of 0 is outside this statement.
\<close>

theorem calculateDiscount_contract:
  assumes "0 \<le> amount" and "0 \<le> discountValue"
    and "case maxDiscount of None \<Rightarrow> True | Some m \<Rightarrow> 0 < m"
  shows "calculateDiscount amount PERCENTAGE discountValue maxDiscount =
           min (case maxDiscount of
                  None \<Rightarrow> amount * discountValue / 100
                | Some m \<Rightarrow> min (amount * discountValue / 100) m) amount
         \<and> calculateDiscount amount FIXED discountValue maxDiscount = min discountValue amount
         \<and> 0 \<le> calculateDiscount amount discountType discountValue maxDiscount
         \<and> calculateDiscount amount discountType discountValue maxDiscount \<le> amount"
proof -
  have d: "0 \<le> amount * discountValue / 100"
    using assms(1,2) by simp
  show ?thesis
    using assms d
    by (cases discountType; cases maxDiscount) (auto simp: calculateDiscount_def Let_def min_def)
qed

text \<open>
  The scenario of the specification: 10 percent of 120000 under a cap of 20000 is 12000;
  under a cap of 5000 it is 5000.
\<close>

theorem calculateDiscount_contract_witness:
  "calculateDiscount 120000 PERCENTAGE 10 (Some 20000) = 12000
   \<and> calculateDiscount 120000 FIXED 10 (Some 20000) = 10
   \<and> 0 \<le> calculateDiscount 120000 PERCENTAGE 10 (Some 20000)
   \<and> calculateDiscount 120000 PERCENTAGE 10 (Some 20000) \<le> 120000
   \<and> calculateDiscount 120000 PERCENTAGE 10 (Some 5000) = 5000"
  using calculateDiscount_contract [of 120000 10 "Some 20000" PERCENTAGE]
    calculateDiscount_contract [of 120000 10 "Some 5000" PERCENTAGE]
  by simp

text \<open>
  Claim C5 as stated fails outside these bounds: nothing checks the sign of the value or
  of the cap, so a fixed rule with a negative value gives a negative discount, and so
  does a percentage rule with a negative cap.
\<close>

theorem calculateDiscount_counterexample:
  "calculateDiscount 100 FIXED (- 5) None = - 5
   \<and> calculateDiscount 100 PERCENTAGE 10 (Some (- 5)) = - 5"
  by (simp add: calculateDiscount_def)

section \<open>Spending points\<close>

text \<open>
  Claim C6, for whole amounts. The lots of a buyer that \<open>deductPoints\<close> may touch are
  those not flagged expired, expiring now or later, with a positive amount. Let the lot
  identifiers be unique, and let the amount to deduct and the amounts of these lots be
  whole numbers up to \<open>2 ^ 53\<close>, on which the minima, subtractions and comparisons of
  the loop are exact in the double arithmetic of the source. Then:
  an amount that is not positive changes nothing; for a positive amount, when these
  lots hold less than the amount, the call throws \<open>POINTS_ERROR\<close>; otherwise it
  succeeds, every lot is still there and differs from before only in its amount, by what
  was taken from it: nothing from a lot it may not touch, between nothing and the whole
  amount from the others, the amount to deduct in total, and from a lot only when every
  lot expiring strictly sooner has been emptied.
  A call of \<open>createTransaction\<close> that fails, for lack of points or otherwise, leaves the
  database, and so every lot, unchanged.
\<close>

theorem deductPoints_greedy:
  assumes "distinct (map p_id (userPoint s))"
    and "wholeAmount amount"
    and "\<forall>p\<in>set (userPoint s). deductible env userId p \<longrightarrow> wholeAmount (p_amount p)"
  shows "(amount \<le> 0 \<longrightarrow> deductPoints env s userId amount = Inr s)
       \<and> (0 < amount
            \<and> sum_list (map p_amount (filter (deductible env userId) (userPoint s))) < amount
            \<longrightarrow> deductPoints env s userId amount = Inl POINTS_ERROR)
       \<and> (0 < amount
            \<and> amount \<le> sum_list (map p_amount (filter (deductible env userId) (userPoint s)))
            \<longrightarrow> (\<exists>taken.
                  deductPoints env s userId amount =
                    Inr (s\<lparr>userPoint :=
                           map (\<lambda>p. p\<lparr>p_amount := p_amount p - taken (p_id p)\<rparr>) (userPoint s)\<rparr>)
                \<and> (\<forall>p\<in>set (userPoint s).
                      if deductible env userId p
                      then 0 \<le> taken (p_id p) \<and> taken (p_id p) \<le> p_amount p
                      else taken (p_id p) = 0)
                \<and> sum_list (map (\<lambda>p. taken (p_id p)) (userPoint s)) = amount
                \<and> (\<forall>p\<in>set (userPoint s). \<forall>q\<in>set (userPoint s).
                      deductible env userId p \<and> deductible env userId q
                      \<and> p_expiryDate p < p_expiryDate q \<and> taken (p_id q) > 0
                      \<longrightarrow> taken (p_id p) = p_amount p)))
       \<and> (\<forall>req e s'. createTransaction env s userId req = (Inl e, s') \<longrightarrow> s' = s)"
proof -
  have "amount \<le> 0 \<longrightarrow> deductPoints env s userId amount = Inr s"
    by (simp add: deductPoints_def)
  then show ?thesis
    using deductPoints_spec [OF assms(1), of amount env userId]
      createTransaction_Inl [of env s userId]
    by blast
qed

text \<open>
  At time 50 the buyer has three lots to spend, expiring at 100 (20 points), 200 (10
  points) and 300 (30 points), next to a flagged lot, a lot that ran out at time 40 and
  another buyer's lot. Deducting 25 empties the first, halves the second and leaves the
  rest; deducting 61 throws.
\<close>

theorem deductPoints_greedy_witness:
  "distinct (map p_id (userPoint wallet))
   \<and> wholeAmount 25 \<and> wholeAmount 61
   \<and> map (\<lambda>p. wholeAmount (p_amount p)) (userPoint wallet)
       = [True, True, True, True, True, True]
   \<and> sum_list (map p_amount (filter (deductible (clock 50 ''x1'') ''u1'') (userPoint wallet))) = 60
   \<and> map p_amount (userPoint wallet) = [30, 20, 10, 100, 7, 9]
   \<and> map_sum id (\<lambda>s. map p_amount (userPoint s)) (deductPoints (clock 50 ''x1'') wallet ''u1'' 25)
       = Inr [30, 0, 5, 100, 7, 9]
   \<and> deductPoints (clock 50 ''x1'') wallet ''u1'' 61 = Inl POINTS_ERROR"
proof -
  have ids: "distinct (map p_id (userPoint wallet))"
    by code_simp
  have whole: "wholeAmount 25" "wholeAmount 61"
    "\<forall>p\<in>set (userPoint wallet).
       deductible (clock 50 ''x1'') ''u1'' p \<longrightarrow> wholeAmount (p_amount p)"
    by code_simp+
  have lots: "map (\<lambda>p. wholeAmount (p_amount p)) (userPoint wallet)
                = [True, True, True, True, True, True]"
    by code_simp
  have avail: "sum_list (map p_amount (filter (deductible (clock 50 ''x1'') ''u1'')
                 (userPoint wallet))) = 60"
    by code_simp
  have before: "map p_amount (userPoint wallet) = [30, 20, 10, 100, 7, 9]"
    by code_simp
  have run: "map_sum id (\<lambda>s. map p_amount (userPoint s))
               (deductPoints (clock 50 ''x1'') wallet ''u1'' 25) = Inr [30, 0, 5, 100, 7, 9]"
    by code_simp
  have short: "deductPoints (clock 50 ''x1'') wallet ''u1'' 61 = Inl POINTS_ERROR"
    using deductPoints_greedy [OF ids whole(2,3)] avail by simp
  have "\<exists>taken. deductPoints (clock 50 ''x1'') wallet ''u1'' 25 =
          Inr (wallet\<lparr>userPoint :=
                 map (\<lambda>p. p\<lparr>p_amount := p_amount p - taken (p_id p)\<rparr>) (userPoint wallet)\<rparr>)"
    using deductPoints_greedy [OF ids whole(1,3)] avail by simp blast
  then show ?thesis
    using ids whole(1,2) lots avail before run short by simp
qed

section \<open>Confirming a booking twice\<close>

text \<open>
  Claim C7. When \<open>confirmTransaction\<close> succeeds on a booking id, the booking was
  \<open>WAITING_FOR_CONFIRMATION\<close> and is returned as \<open>DONE\<close> or \<open>REJECTED\<close>; every further
  call on that id, by any organizer and with any decision, fails with
  \<open>TRANSACTION_NOT_FOUND\<close> and leaves the whole database, and so the inventory, the
  voucher, the coupon and the points, as the first call left it: the rollback cannot
  run a second time. And the first call does succeed on a booking of the organizer's
  event that is \<open>WAITING_FOR_CONFIRMATION\<close>, provided the database takes its writes: to
  accept, there is no attendance record of the booking yet; to reject, the rollback goes
  through.
\<close>

theorem confirmTransaction_at_most_once:
  "(confirmTransaction env s tid org acc = (Inr tr, s1) \<longrightarrow>
      (\<exists>tr0 \<in> set (transaction s). t_id tr0 = tid \<and> t_status tr0 = WAITING_FOR_CONFIRMATION)
      \<and> t_status tr = (if acc then DONE else REJECTED)
      \<and> confirmTransaction env' s1 tid org' acc' = (Inl TRANSACTION_NOT_FOUND, s1))
   \<and> (find (\<lambda>t. t_id t = tid \<and> organizedBy s org t
                 \<and> t_status t = WAITING_FOR_CONFIRMATION) (transaction s) = Some waiting
       \<and> (if acc then find (\<lambda>a. a_transactionId a = tid) (eventAttendee s) = None
           else (\<exists>sR. rollbackTransaction env s tid = Inr sR))
      \<longrightarrow> (\<exists>tr s1. confirmTransaction env s tid org acc = (Inr tr, s1)))"
  using confirmTransaction_once [of env s tid org acc tr s1 env' org' acc']
    confirmTransaction_succeeds [of tid s org waiting acc env]
  by blast

text \<open>
  The worked booking is rejected once, which releases its hold; accepting it afterwards
  fails and changes nothing. Accepting it in the first place would have succeeded too.
\<close>

theorem confirmTransaction_at_most_once_witness:
  "confirmTransaction (clock 12 ''x3'') paid ''x1'' ''o1'' False = (Inr rejectedRow, rejected)
   \<and> map tt_soldQuantity (eventTicketType paid) = [2]
   \<and> map tt_soldQuantity (eventTicketType rejected) = [0]
   \<and> confirmTransaction (clock 13 ''x4'') rejected ''x1'' ''o1'' True
        = (Inl TRANSACTION_NOT_FOUND, rejected)
   \<and> fst (confirmTransaction (clock 12 ''x3'') paid ''x1'' ''o1'' True)
        = Inr (bookedRow\<lparr>t_status := DONE\<rparr>)"
proof -
  have first: "confirmTransaction (clock 12 ''x3'') paid ''x1'' ''o1'' False
                 = (Inr rejectedRow, rejected)"
    by code_simp
  have sold: "map tt_soldQuantity (eventTicketType paid) = [2]"
    "map tt_soldQuantity (eventTicketType rejected) = [0]"
    by code_simp+
  have accept: "fst (confirmTransaction (clock 12 ''x3'') paid ''x1'' ''o1'' True)
                  = Inr (bookedRow\<lparr>t_status := DONE\<rparr>)"
    by code_simp
  have "confirmTransaction (clock 13 ''x4'') rejected ''x1'' ''o1'' True
          = (Inl TRANSACTION_NOT_FOUND, rejected)"
    using confirmTransaction_at_most_once [of "clock 12 ''x3''" paid "''x1''" "''o1''" False
            rejectedRow rejected "clock 13 ''x4''" "''o1''" True, THEN conjunct1] first
    by simp
  then show ?thesis
    using first sold accept by simp
qed

section \<open>The seats of the event\<close>

text \<open>
  Claim C8, as amended. When the requested quantities add up to more than the seats the
  event has left (\<open>availableSeats - bookedSeats\<close>), \<open>createTransaction\<close> fails and the
  database is unchanged. The error is \<open>INSUFFICIENT_SEATS\<close> whenever the request passes the
  checks that come before (a line is given, every ticket type is found, every quantity is
  positive and within what its ticket type has left), so the cap of the event holds on
  top of the caps of the ticket types.
\<close>

theorem createTransaction_insufficient_seats:
  assumes "findBookableEvent env s req = Some (ev, ets)"
    and "totalTicketsRequested (ticketTypes req) > e_availableSeats ev - e_bookedSeats ev"
  shows "(\<exists>e. createTransaction env s userId req = (Inl e, s))
       \<and> (ticketTypes req \<noteq> [] \<and> missingTicketTypes ets (ticketTypes req) = []
            \<and> (\<exists>x. validateTickets ets (ticketTypes req) 0 [] = Inr x)
          \<longrightarrow> createTransaction env s userId req = (Inl INSUFFICIENT_SEATS, s))"
  using createTransaction_tx_seats [OF assms, where userId = userId]
  by (auto simp: createTransaction_def prisma_transaction_def)

text \<open>
  Two tickets of a type that has five left, for an event that has one seat left.
\<close>

theorem createTransaction_insufficient_seats_witness:
  "findBookableEvent (clock 10 ''x1'') smallHall plainOrder
     = Some (\<lparr>e_id = ''e1'', e_organizerId = ''o1'', e_startDate = 1000,
               e_availableSeats = 1, e_bookedSeats = 0, e_isPublished = True\<rparr>,
             [\<lparr>tt_id = ''t1'', tt_eventId = ''e1'', tt_price = 100,
               tt_quantity = 5, tt_soldQuantity = 0\<rparr>])
   \<and> totalTicketsRequested (ticketTypes plainOrder) = 2
   \<and> createTransaction (clock 10 ''x1'') smallHall ''u1'' plainOrder
       = (Inl INSUFFICIENT_SEATS, smallHall)"
proof -
  have ev: "findBookableEvent (clock 10 ''x1'') smallHall plainOrder
     = Some (\<lparr>e_id = ''e1'', e_organizerId = ''o1'', e_startDate = 1000,
               e_availableSeats = 1, e_bookedSeats = 0, e_isPublished = True\<rparr>,
             [\<lparr>tt_id = ''t1'', tt_eventId = ''e1'', tt_price = 100,
               tt_quantity = 5, tt_soldQuantity = 0\<rparr>])"
    by code_simp
  have total: "totalTicketsRequested (ticketTypes plainOrder) = 2"
    by code_simp
  have seats: "totalTicketsRequested (ticketTypes plainOrder)
                 > e_availableSeats \<lparr>e_id = ''e1'', e_organizerId = ''o1'', e_startDate = 1000,
                     e_availableSeats = 1, e_bookedSeats = 0, e_isPublished = True\<rparr>
                   - e_bookedSeats \<lparr>e_id = ''e1'', e_organizerId = ''o1'', e_startDate = 1000,
                     e_availableSeats = 1, e_bookedSeats = 0, e_isPublished = True\<rparr>"
    by code_simp
  have lines: "ticketTypes plainOrder \<noteq> []"
    "missingTicketTypes [\<lparr>tt_id = ''t1'', tt_eventId = ''e1'', tt_price = 100,
               tt_quantity = 5, tt_soldQuantity = 0\<rparr>] (ticketTypes plainOrder) = []"
    "validateTickets [\<lparr>tt_id = ''t1'', tt_eventId = ''e1'', tt_price = 100,
               tt_quantity = 5, tt_soldQuantity = 0\<rparr>] (ticketTypes plainOrder) 0 []
       = Inr (200, [\<lparr>u_id = ''t1'', u_quantity = 2, u_currentSold = 0, u_maxQuantity = 5,
                      u_price = 100\<rparr>])"
    by code_simp+
  show ?thesis
    using ev total lines createTransaction_insufficient_seats [OF ev seats, of "''u1''"]
    by simp
qed

text \<open>
  Claim C8 as stated fails: six tickets of a type that has five left, for an event that
  has one seat left, are over the seats of the event, and the request is refused with
  \<open>INSUFFICIENT_TICKETS\<close>, since the ticket types are checked before the seats.
\<close>

theorem insufficient_seats_counterexample:
  "map (\<lambda>e. e_availableSeats e - e_bookedSeats e) (event smallHall) = [1]
   \<and> map (\<lambda>t. tt_quantity t - tt_soldQuantity t) (eventTicketType smallHall) = [5]
   \<and> totalTicketsRequested (ticketTypes sixTickets) = 6
   \<and> createTransaction (clock 10 ''x1'') smallHall ''u1'' sixTickets
       = (Inl INSUFFICIENT_TICKETS, smallHall)"
  by code_simp

section \<open>Where restored points go\<close>

text \<open>
  Claim C9. With a positive amount, \<open>restorePoints\<close> adds the whole amount to the lot the
  lookup returns: a lot of the buyer that no other lot of the buyer was created after.
  The lookup reads neither the expiry flag nor the expiry date, and it returns a lot
  whenever the buyer has one; only for a buyer without lots a new lot is created,
  expiring three months from now. So points can be restored to a lot that cannot be
  spent: after the booking of 25 points on the second database of point lots is rejected,
  the amounts of the buyer's lots add up to the same as before, and the points the buyer
  can spend are fewer than before.
\<close>

theorem restorePoints_credits_latest_lot:
  assumes "0 < amount"
  shows "(\<forall>lot. latestPoint (userPoint s) userId = Some lot \<longrightarrow>
            lot \<in> set (userPoint s) \<and> p_userId lot = userId
          \<and> (\<forall>q\<in>set (userPoint s). p_userId q = userId \<longrightarrow> p_createdAt q \<le> p_createdAt lot)
          \<and> restorePoints env s userId amount =
              Inr (s\<lparr>userPoint := map (\<lambda>p. if p_id p = p_id lot
                                           then p\<lparr>p_amount := p_amount p + amount\<rparr> else p)
                                      (userPoint s)\<rparr>))
       \<and> ((\<exists>q\<in>set (userPoint s). p_userId q = userId)
            \<longrightarrow> (\<exists>lot. latestPoint (userPoint s) userId = Some lot))
       \<and> ((\<forall>q\<in>set (userPoint s). p_userId q \<noteq> userId)
            \<and> find (\<lambda>p. p_id p = uuid env) (userPoint s) = None
          \<longrightarrow> restorePoints env s userId amount =
                Inr (s\<lparr>userPoint := userPoint s @
                       [\<lparr>p_id = uuid env, p_userId = userId, p_amount = amount,
                         p_sourceType = ''REFUND'',
                         p_expiryDate = addMonths env (now env) 3,
                         p_isExpired = False, p_createdAt = now env\<rparr>]\<rparr>))
       \<and> pointTotal refunded ''u1'' = pointTotal wallet ''u1''
       \<and> availablePoints (clock 52 ''x3'') refunded ''u1''
           < availablePoints (clock 52 ''x3'') wallet ''u1''"
proof -
  have a: "lot \<in> set (userPoint s) \<and> p_userId lot = userId
          \<and> (\<forall>q\<in>set (userPoint s). p_userId q = userId \<longrightarrow> p_createdAt q \<le> p_createdAt lot)
          \<and> restorePoints env s userId amount =
              Inr (s\<lparr>userPoint := map (\<lambda>p. if p_id p = p_id lot
                                           then p\<lparr>p_amount := p_amount p + amount\<rparr> else p)
                                      (userPoint s)\<rparr>)"
    if lot: "latestPoint (userPoint s) userId = Some lot" for lot
  proof -
    note l = latestPoint_Some [OF lot]
    then have "p_id lot \<in> p_id ` set (userPoint s)"
      by blast
    then obtain x where "find (\<lambda>p. p_id p = p_id lot) (userPoint s) = Some x"
      using find_id_iff [of p_id "p_id lot" "userPoint s"] by blast
    then have "restorePoints env s userId amount =
              Inr (s\<lparr>userPoint := map (\<lambda>p. if p_id p = p_id lot
                                           then p\<lparr>p_amount := p_amount p + amount\<rparr> else p)
                                      (userPoint s)\<rparr>)"
      using assms lot by (simp add: restorePoints_def update_def)
    then show ?thesis using l by blast
  qed
  have b: "\<exists>lot. latestPoint (userPoint s) userId = Some lot"
    if "\<exists>q\<in>set (userPoint s). p_userId q = userId"
    using that latestPoint_None_iff [of "userPoint s" userId]
    by (cases "latestPoint (userPoint s) userId") auto
  have c: "restorePoints env s userId amount =
                Inr (s\<lparr>userPoint := userPoint s @
                       [\<lparr>p_id = uuid env, p_userId = userId, p_amount = amount,
                         p_sourceType = ''REFUND'',
                         p_expiryDate = addMonths env (now env) 3,
                         p_isExpired = False, p_createdAt = now env\<rparr>]\<rparr>)"
    if "(\<forall>q\<in>set (userPoint s). p_userId q \<noteq> userId)
            \<and> find (\<lambda>p. p_id p = uuid env) (userPoint s) = None"
    using that assms latestPoint_None_iff [of "userPoint s" userId]
    by (simp add: restorePoints_def)
  have d: "pointTotal refunded ''u1'' = pointTotal wallet ''u1''"
    "availablePoints (clock 52 ''x3'') refunded ''u1''
           < availablePoints (clock 52 ''x3'') wallet ''u1''"
    by code_simp+
  show ?thesis
    using a b c d by blast
qed

text \<open>
  The rollback of the worked booking restores 50 points: the buyer's lot created last is
  the one that ran out at time 5, and it receives them.
\<close>

theorem restorePoints_credits_latest_lot_witness:
  "latestPoint (userPoint booked) ''u1''
     = Some \<lparr>p_id = ''p2'', p_userId = ''u1'', p_amount = 0, p_sourceType = ''REFERRAL'',
             p_expiryDate = 5, p_isExpired = False, p_createdAt = 2\<rparr>
   \<and> map p_amount (userPoint booked) = [0, 0]
   \<and> map_sum id (\<lambda>s. map p_amount (userPoint s))
        (restorePoints (clock 12 ''x3'') booked ''u1'' 50) = Inr [0, 50]"
proof -
  have lot: "latestPoint (userPoint booked) ''u1''
     = Some \<lparr>p_id = ''p2'', p_userId = ''u1'', p_amount = 0, p_sourceType = ''REFERRAL'',
             p_expiryDate = 5, p_isExpired = False, p_createdAt = 2\<rparr>"
    by code_simp
  have before: "map p_amount (userPoint booked) = [0, 0]"
    by code_simp
  have pos: "(0::rat) < 50"
    by simp
  have "restorePoints (clock 12 ''x3'') booked ''u1'' 50 =
          Inr (booked\<lparr>userPoint := map (\<lambda>p. if p_id p = ''p2''
                                            then p\<lparr>p_amount := p_amount p + 50\<rparr> else p)
                                       (userPoint booked)\<rparr>)"
    using restorePoints_credits_latest_lot [OF pos, of booked "''u1''" "clock 12 ''x3''",
            THEN conjunct1, rule_format, OF lot]
    by simp
  moreover have "map p_amount (map (\<lambda>p. if p_id p = ''p2''
                                            then p\<lparr>p_amount := p_amount p + 50\<rparr> else p)
                                       (userPoint booked)) = [0, 50]"
    by code_simp
  ultimately show ?thesis
    using lot before by simp
qed

section \<open>The discount of a voucher\<close>

text \<open>
  Claim C10. The row of a voucher has no column for a largest discount. When
  \<open>createTransaction\<close> applies a voucher, the voucher discount of the booking is
  \<open>calculateDiscount\<close> of the total amount with no cap argument; for a percentage voucher
  that is \<open>totalAmount * value / 100\<close> clamped by the total amount only. When it applies
  a coupon, the cap passed is the \<open>maxDiscountAmount\<close> of the coupon's template.
\<close>

theorem voucher_discount_uncapped:
  assumes "createTransaction env s userId req = (Inr tr, s')"
  shows "(\<forall>vid. t_voucherId tr = Some vid \<longrightarrow>
            (\<exists>voucher \<in> set (eventVoucher s). v_id voucher = vid
               \<and> t_voucherDiscount tr =
                   calculateDiscount (t_totalAmount tr) (v_discountType voucher)
                     (v_discountValue voucher) None
               \<and> (v_discountType voucher = PERCENTAGE \<longrightarrow>
                    t_voucherDiscount tr =
                      min (t_totalAmount tr * v_discountValue voucher / 100) (t_totalAmount tr))))
       \<and> (\<forall>cid. t_couponId tr = Some cid \<longrightarrow>
            (\<exists>coupon \<in> set (userCoupon s). \<exists>template \<in> set (couponTemplate s).
               c_id coupon = cid \<and> ct_id template = c_couponTemplateId coupon
               \<and> t_couponDiscount tr =
                   calculateDiscount (t_totalAmount tr) (ct_discountType template)
                     (ct_discountValue template) (ct_maxDiscountAmount template)))"
proof -
  from assms obtain ev ets totalAmount ticketUpdates pointsDiscount v c where
    vv: "validateVoucher env s (eventId req) (voucherCode req) totalAmount = Inr v" and
    vc: "validateCoupon env s userId (couponCode req) totalAmount = Inr c" and
    p: "persistTransaction env userId req ets totalAmount ticketUpdates pointsDiscount v c s
          = Inr (tr, s')"
    by (auto simp: createTransaction_Inr_iff createTransaction_tx_Inr_iff)
  from persistTransaction_row [OF p] obtain items where
    tr: "tr = newTransaction env userId req totalAmount pointsDiscount v c items"
    by blast
  have "\<exists>voucher \<in> set (eventVoucher s). v_id voucher = vid
               \<and> t_voucherDiscount tr =
                   calculateDiscount (t_totalAmount tr) (v_discountType voucher)
                     (v_discountValue voucher) None
               \<and> (v_discountType voucher = PERCENTAGE \<longrightarrow>
                    t_voucherDiscount tr =
                      min (t_totalAmount tr * v_discountValue voucher / 100) (t_totalAmount tr))"
    if "t_voucherId tr = Some vid" for vid
  proof -
    from that obtain voucher where "snd v = Some voucher" "v_id voucher = vid"
      by (auto simp: tr newTransaction_def)
    then have "validateVoucher env s (eventId req) (voucherCode req) totalAmount
                 = Inr (fst v, Some voucher)"
      using vv by (cases v) simp
    from validateVoucher_applied [OF this] show ?thesis
      using \<open>v_id voucher = vid\<close>
      by (auto simp: tr newTransaction_def calculateDiscount_uncapped)
  qed
  moreover have "\<exists>coupon \<in> set (userCoupon s). \<exists>template \<in> set (couponTemplate s).
               c_id coupon = cid \<and> ct_id template = c_couponTemplateId coupon
               \<and> t_couponDiscount tr =
                   calculateDiscount (t_totalAmount tr) (ct_discountType template)
                     (ct_discountValue template) (ct_maxDiscountAmount template)"
    if "t_couponId tr = Some cid" for cid
  proof -
    from that obtain coupon where "snd c = Some coupon" "c_id coupon = cid"
      by (auto simp: tr newTransaction_def)
    then have "validateCoupon env s userId (couponCode req) totalAmount
                 = Inr (fst c, Some coupon)"
      using vc by (cases c) simp
    from validateCoupon_applied [OF this] show ?thesis
      using \<open>c_id coupon = cid\<close>
      by (auto simp: tr newTransaction_def)
  qed
  ultimately show ?thesis by blast
qed

text \<open>
  The worked booking: the ten-percent voucher gives 20 on a total of 200, and the fixed
  coupon of the uncapped template gives 20.
\<close>

theorem voucher_discount_uncapped_witness:
  "createTransaction (clock 10 ''x1'') shop ''u1'' order = (Inr bookedRow, booked)
   \<and> t_voucherId bookedRow = Some ''v1''
   \<and> t_voucherDiscount bookedRow = 20
   \<and> t_couponId bookedRow = Some ''c1''
   \<and> t_couponDiscount bookedRow = 20"
proof -
  have made: "createTransaction (clock 10 ''x1'') shop ''u1'' order = (Inr bookedRow, booked)"
    by code_simp
  show ?thesis
    using made voucher_discount_uncapped [OF made]
    by (simp add: bookedRow_def)
qed

end
